theory Spec2Isabelle
  imports Complex_Main "HOL-Library.Word"
begin

section \<open>The MAVLink protocol engine of QGroundControl (src/comm/MAVLinkProtocol.cc)\<close>

text \<open>
  A shallow embedding of \<^verbatim>\<open>MAVLinkProtocol\<close>: the object's member variables are the
  fields of a record, every method is a function from states to states, and every
  signal the object emits (and the one call that creates a vehicle) is appended to the
  field \<open>emitted\<close>, in program order.
\<close>

subsection \<open>Data\<close>

type_synonym u8 = "8 word"
type_synonym quint64 = "64 word"

text \<open>
  \<^verbatim>\<open>mavlink_message_t\<close> and \<^verbatim>\<open>mavlink_heartbeat_t\<close> are structs of the MAVLink
  library; only the fields that \<^verbatim>\<open>receiveBytes\<close> reads are kept, with the payload bytes.
\<close>

record mavlink_message =
  sysid :: u8
  compid :: u8
  msgid :: u8
  seq :: u8
  payload :: "u8 list"

record mavlink_heartbeat =
  hb_type :: u8
  autopilot :: u8
  mavlink_version :: u8

record LinkInterface =
  getId :: int

record QFile =
  fileName :: string
  isOpen :: bool

text \<open>
  The four texts that \<^verbatim>\<open>protocolStatusMessage\<close> is emitted with, each with the values
  substituted into it by \<^verbatim>\<open>.arg(...)\<close>:
  \<^item> \<open>LoggingFailed f\<close>: "MAVLink Logging failed", file name \<open>f\<close> (line 179);
  \<^item> \<open>SystemIdConflict i\<close>: "SYSTEM ID CONFLICT!", own system id \<open>i\<close> (line 202);
  \<^item> \<open>VersionMismatch s v w\<close>: "The MAVLink protocol version on the MAV and
    QGroundControl mismatch!", system \<open>s\<close> sends version \<open>v\<close>, QGroundControl
    uses \<open>w\<close> (line 222);
  \<^item> \<open>LogfileOpenFailed f\<close>: "Opening MAVLink logfile for writing failed" (line 407).
\<close>

datatype status =
    LoggingFailed string
  | SystemIdConflict int
  | VersionMismatch u8 u8 u8
  | LogfileOpenFailed string

text \<open>
  A value of the C++ types \<^verbatim>\<open>float\<close> and \<^verbatim>\<open>double\<close>: a finite number, or
  \<open>NotFinite\<close> for an infinity or a NaN, which is what a division by zero gives.
\<close>

datatype cfloat = Finite real | NotFinite

text \<open>
  The signals of the class, and \<open>createUAS_called\<close>, the call of
  \<^verbatim>\<open>QGCMAVLinkUASFactory::createUAS\<close> (line 232) with its arguments. The loss ratio of
  \<^verbatim>\<open>receiveLossChanged\<close> is a \<^verbatim>\<open>float\<close>.
\<close>

datatype effect =
    protocolStatusMessage status
  | receiveLossChanged u8 cfloat
  | messageReceived LinkInterface mavlink_message
  | loggingChanged bool
  | heartbeatChanged bool
  | versionCheckChanged bool
  | createUAS_called LinkInterface u8 mavlink_heartbeat

text \<open>
  Everything \<^verbatim>\<open>MAVLinkProtocol.cc\<close> calls and does not define is a parameter:
  the constants and functions of the MAVLink library, the vehicle registry
  (\<^verbatim>\<open>UASManager::getUASForId\<close>, with the registry's state of type \<open>'r\<close> and a vehicle
  handle of type \<open>'u\<close>, \<open>None\<close> for a NULL pointer), the vehicle factory, and the
  outcomes of \<^verbatim>\<open>QFile::open\<close> and \<^verbatim>\<open>QFile::write\<close>.
  \<^item> \<open>mavlink_parse_char chan c p\<close>: the parser of channel \<open>chan\<close> in state \<open>p\<close>
    reads byte \<open>c\<close>; the result is the next parser state and, when the call returns 1,
    the completed message.
  \<^item> \<open>mavlink_msg_to_send_buffer m\<close>: the bytes of the frame of \<open>m\<close>, start marker
    through checksum.
  \<^item> \<open>mavlink_msg_heartbeat_decode m\<close>: the heartbeat struct the call fills (it writes
    every field, so the reset of line 213 is not visible after it).
  \<^item> \<open>qfile_open name\<close>: whether opening \<open>name\<close> for appending succeeds.
  \<^item> \<open>qfile_write name old b\<close>: on a file that is open and holds \<open>old\<close>, the value
    \<^verbatim>\<open>write(b)\<close> returns: the number of bytes written, or -1.
  \<^item> \<open>MAVLINK_HEARTBEAT_DEFAULT_RATE\<close> and \<open>defaultSystemId\<close>
    (\<^verbatim>\<open>QGC::defaultSystemId\<close>): the constants the constructor starts from.
\<close>

record ('p, 'r, 'u) externals =
  MAVLINK_MAX_PACKET_LEN :: nat
  MAVLINK_VERSION :: u8
  MAVLINK_MSG_ID_HEARTBEAT :: u8
  mavlink_parse_char :: "u8 \<Rightarrow> u8 \<Rightarrow> 'p \<Rightarrow> 'p \<times> mavlink_message option"
  mavlink_msg_to_send_buffer :: "mavlink_message \<Rightarrow> u8 list"
  mavlink_msg_heartbeat_decode :: "mavlink_message \<Rightarrow> mavlink_heartbeat"
  getUASForId :: "'r \<Rightarrow> u8 \<Rightarrow> 'u option"
  createUAS :: "LinkInterface \<Rightarrow> u8 \<Rightarrow> mavlink_heartbeat \<Rightarrow> 'r \<Rightarrow> 'u option \<times> 'r"
  qfile_open :: "string \<Rightarrow> bool"
  qfile_write :: "string \<Rightarrow> u8 list \<Rightarrow> u8 list \<Rightarrow> int"
  MAVLINK_HEARTBEAT_DEFAULT_RATE :: int
  defaultSystemId :: int

text \<open>
  The state: the member variables of \<^verbatim>\<open>MAVLinkProtocol\<close>, then what the methods reach
  outside the object: the parser states of the MAVLink library, the registry of
  \<^verbatim>\<open>UASManager::instance()\<close>, the contents of the files by name, and the signals
  emitted so far. The counters and \<open>lastIndex\<close> are C++ \<^verbatim>\<open>int\<close>s declared in a header
  that is not among the sources; they are unbounded integers here, so a counter that
  passes \<open>2^31\<close> is not modelled. \<open>lastIndex\<close> is the array
  \<^verbatim>\<open>lastIndex[256][256]\<close>, indexed by the two 8-bit ids.
\<close>

record ('p, 'r) protocol =
  heartbeatRate :: int
  m_heartbeatsEnabled :: bool
  m_loggingEnabled :: bool
  m_logfile :: "QFile option"
  m_enable_version_check :: bool
  versionMismatchIgnore :: bool
  systemId :: int
  totalReceiveCounter :: int
  totalLossCounter :: int
  currReceiveCounter :: int
  currLossCounter :: int
  lastIndex :: "u8 \<Rightarrow> u8 \<Rightarrow> int"
  mavlink_status :: 'p
  uasManager :: 'r
  disk :: "string \<Rightarrow> u8 list"
  emitted :: "effect list"

definition emit :: "effect \<Rightarrow> ('p, 'r) protocol \<Rightarrow> ('p, 'r) protocol" where
  "emit e s = s\<lparr>emitted := emitted s @ [e]\<rparr>"

text \<open>What a call has emitted: the signals of \<open>s'\<close> after those of \<open>s\<close>.\<close>

definition new_effects :: "('p, 'r) protocol \<Rightarrow> ('p, 'r) protocol \<Rightarrow> effect list" where
  "new_effects s s' = drop (length (emitted s)) (emitted s')"

subsection \<open>Logging: \<^verbatim>\<open>enableLogging\<close>, \<^verbatim>\<open>setLogfileName\<close> and lines 167-183\<close>

text \<open>\<^verbatim>\<open>flush(); close()\<close> on the log file, when there is one and it is open.\<close>

definition closeLogfile :: "('p, 'r) protocol \<Rightarrow> ('p, 'r) protocol" where
  "closeLogfile s =
     (case m_logfile s of
        None \<Rightarrow> s
      | Some f \<Rightarrow> if isOpen f then s\<lparr>m_logfile := Some (f\<lparr>isOpen := False\<rparr>)\<rparr> else s)"

definition enableLogging ::
  "('p, 'r, 'u) externals \<Rightarrow> bool \<Rightarrow> ('p, 'r) protocol \<Rightarrow> ('p, 'r) protocol" where
  "enableLogging E enabled s =
     (let changed = (enabled \<noteq> m_loggingEnabled s);
          s1 = (if enabled then
                  (let sa = closeLogfile s in
                   case m_logfile sa of
                     None \<Rightarrow> sa
                   | Some f \<Rightarrow>
                       if \<not> qfile_open E (fileName f)
                       then (emit (protocolStatusMessage (LogfileOpenFailed (fileName f))) sa)
                              \<lparr>m_loggingEnabled := False\<rparr>
                       else sa\<lparr>m_logfile := Some (f\<lparr>isOpen := True\<rparr>)\<rparr>)
                else
                  (case m_logfile s of
                     None \<Rightarrow> s
                   | Some f \<Rightarrow> (closeLogfile s)\<lparr>m_logfile := None\<rparr>));
          s2 = s1\<lparr>m_loggingEnabled := enabled\<rparr>
      in if changed then emit (loggingChanged enabled) s2 else s2)"

definition setLogfileName ::
  "('p, 'r, 'u) externals \<Rightarrow> string \<Rightarrow> ('p, 'r) protocol \<Rightarrow> ('p, 'r) protocol" where
  "setLogfileName E filename s =
     (let s1 = (case m_logfile s of
                  None \<Rightarrow> s\<lparr>m_logfile := Some \<lparr>fileName = filename, isOpen = False\<rparr>\<rparr>
                | Some f \<Rightarrow> s\<lparr>m_logfile := Some (f\<lparr>isOpen := False\<rparr>)\<rparr>);
          s2 = s1\<lparr>m_logfile := map_option (\<lambda>f. f\<lparr>fileName := filename\<rparr>) (m_logfile s1)\<rparr>
      in enableLogging E (m_loggingEnabled s2) s2)"

text \<open>
  \<^verbatim>\<open>memcpy(buf, &time, sizeof(quint64))\<close>: the eight bytes of the time stamp as they lie
  in memory, least significant byte first (a little-endian host).
\<close>

definition timeBytes :: "quint64 \<Rightarrow> u8 list" where
  "timeBytes t = map (\<lambda>i. ucast (drop_bit (8 * i) t)) [0..<8]"

text \<open>Writing the bytes \<open>src\<close> into the array \<open>dst\<close> from index \<open>off\<close> on.\<close>

definition writeAt :: "nat \<Rightarrow> u8 list \<Rightarrow> u8 list \<Rightarrow> u8 list" where
  "writeAt off src dst = take off dst @ src @ drop (off + length src) dst"

text \<open>
  Lines 170-176, the bytes handed to \<^verbatim>\<open>write\<close>. \<open>buf\<close> is what the local array
  \<^verbatim>\<open>uint8_t buf[len]\<close> holds when it is declared: it is not initialised, so its contents
  are an input (padded with zeros if the list given is shorter than \<open>len\<close>). The
  \<^verbatim>\<open>QByteArray\<close> is built from all \<open>len\<close> bytes of the array.
\<close>

definition logRecord ::
  "('p, 'r, 'u) externals \<Rightarrow> quint64 \<Rightarrow> u8 list \<Rightarrow> mavlink_message \<Rightarrow> u8 list" where
  "logRecord E time buf message =
     (let len = MAVLINK_MAX_PACKET_LEN E + 8;
          buf0 = take len (buf @ replicate len 0);
          buf1 = writeAt 0 (timeBytes time) buf0;
          buf2 = writeAt 8 (mavlink_msg_to_send_buffer E message) buf1
      in take len buf2)"

text \<open>
  \<^verbatim>\<open>m_logfile->write(b)\<close>: -1 and nothing written on a file that is not open; on an open
  file the bytes the call reports are appended.
\<close>

definition QFile_write ::
  "('p, 'r, 'u) externals \<Rightarrow> QFile \<Rightarrow> u8 list \<Rightarrow> ('p, 'r) protocol \<Rightarrow> int \<times> ('p, 'r) protocol" where
  "QFile_write E f b s =
     (if \<not> isOpen f then (- 1, s)
      else (let n = qfile_write E (fileName f) (disk s (fileName f)) b
            in (n, s\<lparr>disk := (disk s)(fileName f := disk s (fileName f) @ take (nat n) b)\<rparr>)))"

text \<open>
  The comparison of line 177, \<^verbatim>\<open>write(b) < MAVLINK_MAX_PACKET_LEN+sizeof(quint64)\<close>:
  the right side is a \<^verbatim>\<open>size_t\<close>, so on a 64-bit target the \<^verbatim>\<open>qint64\<close> on the left is
  converted to an unsigned 64-bit value before the two are compared.
\<close>

definition shortWrite :: "int \<Rightarrow> nat \<Rightarrow> bool" where
  "shortWrite n len = (n mod 2 ^ 64 < int len)"

definition logMessage ::
  "('p, 'r, 'u) externals \<Rightarrow> quint64 \<Rightarrow> u8 list \<Rightarrow> mavlink_message
     \<Rightarrow> ('p, 'r) protocol \<Rightarrow> ('p, 'r) protocol" where
  "logMessage E time buf message s =
     (case m_logfile s of
        None \<Rightarrow> s
      | Some f \<Rightarrow>
          if m_loggingEnabled s then
            (let (n, s1) = QFile_write E f (logRecord E time buf message) s
             in if shortWrite n (MAVLINK_MAX_PACKET_LEN E + 8)
                then enableLogging E False
                       (emit (protocolStatusMessage (LoggingFailed (fileName f))) s1)
                else s1)
          else s)"

subsection \<open>Sequence tracking and loss counters: lines 238-295\<close>

definition setLastIndex :: "u8 \<Rightarrow> u8 \<Rightarrow> int \<Rightarrow> ('p, 'r) protocol \<Rightarrow> ('p, 'r) protocol" where
  "setLastIndex sy co v s = s\<lparr>lastIndex := (lastIndex s)(sy := (lastIndex s sy)(co := v))\<rparr>"

text \<open>Lines 250-257 and 263-270: one step of the cursor, from 255 to 0.\<close>

definition incLastIndex :: "u8 \<Rightarrow> u8 \<Rightarrow> ('p, 'r) protocol \<Rightarrow> ('p, 'r) protocol" where
  "incLastIndex sy co s =
     (if lastIndex s sy co = 255 then setLastIndex sy co 0 s
      else setLastIndex sy co (lastIndex s sy co + 1) s)"

text \<open>
  The loop of lines 261-274. The result is the state with the value of the local
  \<^verbatim>\<open>safeguard\<close> at the loop's exit, which counts the iterations.
\<close>

function lossLoop ::
  "mavlink_message \<Rightarrow> int \<Rightarrow> ('p, 'r) protocol \<Rightarrow> int \<times> ('p, 'r) protocol" where
  "lossLoop message safeguard s =
     (if lastIndex s (sysid message) (compid message) \<noteq> uint (seq message) \<and> safeguard < 255
      then lossLoop message (safeguard + 1)
             ((incLastIndex (sysid message) (compid message) s)
                \<lparr>totalLossCounter := totalLossCounter s + 1,
                 currLossCounter := currLossCounter s + 1\<rparr>)
      else (safeguard, s))"
  by pat_completeness auto
termination
  by (relation "measure (\<lambda>(message, safeguard, s). nat (255 - safeguard))") auto

text \<open>Lines 243-275.\<close>

definition trackSequence :: "mavlink_message \<Rightarrow> ('p, 'r) protocol \<Rightarrow> ('p, 'r) protocol" where
  "trackSequence message s =
     (if lastIndex s (sysid message) (compid message) = - 1
      then setLastIndex (sysid message) (compid message) (uint (seq message)) s
      else snd (lossLoop message 0 (incLastIndex (sysid message) (compid message) s)))"

text \<open>Lines 239-240.\<close>

definition countReceived :: "('p, 'r) protocol \<Rightarrow> ('p, 'r) protocol" where
  "countReceived s =
     s\<lparr>totalReceiveCounter := totalReceiveCounter s + 1,
       currReceiveCounter := currReceiveCounter s + 1\<rparr>"

text \<open>The remainder of C++'s \<^verbatim>\<open>%\<close> on \<^verbatim>\<open>int\<close>, which truncates towards zero.\<close>

definition c_rem :: "int \<Rightarrow> int \<Rightarrow> int" where
  "c_rem a b = sgn a * (\<bar>a\<bar> mod \<bar>b\<bar>)"

text \<open>
  Floating-point arithmetic, as IEEE 754 has it in the binary formats with \<open>p\<close>
  significant bits (53 for \<^verbatim>\<open>double\<close>, 24 for \<^verbatim>\<open>float\<close>): the result of an operation
  is the exact result rounded to the nearest number of the format, a tie to the one with
  an even last digit. The range of the exponent is not modelled: the numbers that
  \<^verbatim>\<open>receiveBytes\<close> computes are quotients and products of counters and lie far inside
  the normal range of both formats.
  \<^item> \<open>bitlength n\<close>: the number of binary digits of \<open>n\<close>;
  \<^item> \<open>binary_exponent x\<close>: for \<open>x > 0\<close> the exponent \<open>e\<close> with
    \<open>2^e \<le> x < 2^(e+1)\<close>;
  \<^item> \<open>round_half_even x\<close>: the integer nearest to \<open>x\<close>, the even one of two;
  \<^item> \<open>ieee_round p x\<close>: \<open>x\<close> rounded to \<open>p\<close> significant bits.
\<close>

fun bitlength :: "nat \<Rightarrow> nat" where
  "bitlength n = (if n = 0 then 0 else Suc (bitlength (n div 2)))"

definition binary_exponent :: "real \<Rightarrow> int" where
  "binary_exponent x =
     (if 1 \<le> x then int (bitlength (nat \<lfloor>x\<rfloor>)) - 1
      else - int (bitlength (nat (\<lceil>1 / x\<rceil> - 1))))"

definition round_half_even :: "real \<Rightarrow> int" where
  "round_half_even x =
     (let f = \<lfloor>x\<rfloor>; d = x - of_int f
      in if d < 1 / 2 then f else if 1 / 2 < d then f + 1 else if even f then f else f + 1)"

definition ieee_round :: "nat \<Rightarrow> real \<Rightarrow> real" where
  "ieee_round p x =
     (if x = 0 then 0
      else (let u = 2 powi (binary_exponent \<bar>x\<bar> - (int p - 1))
            in sgn x * (of_int (round_half_even (\<bar>x\<bar> / u)) * u)))"

definition to_double :: "real \<Rightarrow> real" where
  "to_double x = ieee_round 53 x"

definition to_float :: "real \<Rightarrow> real" where
  "to_float x = ieee_round 24 x"

text \<open>
  Lines 289-290. The two counters are converted to \<^verbatim>\<open>double\<close> and divided in
  \<^verbatim>\<open>double\<close>; the quotient initialises a \<^verbatim>\<open>float\<close>, which is then multiplied by
  \<^verbatim>\<open>100.0f\<close> in \<^verbatim>\<open>float\<close>. A division by zero does not trap: its result is an
  infinity or a NaN, and stays one.
\<close>

definition receiveLoss :: "('p, 'r) protocol \<Rightarrow> cfloat" where
  "receiveLoss s =
     (let lost = to_double (real_of_int (currLossCounter s));
          total = to_double (real_of_int (currReceiveCounter s + currLossCounter s))
      in if total = 0 then NotFinite
         else Finite (to_float (to_float (to_double (lost / total)) * 100)))"

text \<open>Lines 285-295; \<open>lastLoss\<close> is the local of line 241.\<close>

definition reportLoss :: "mavlink_message \<Rightarrow> int \<Rightarrow> ('p, 'r) protocol \<Rightarrow> ('p, 'r) protocol" where
  "reportLoss message lastLoss s =
     (if lastLoss \<noteq> totalLossCounter s \<or> c_rem (totalReceiveCounter s) 64 = 0
      then emit (receiveLossChanged (sysid message) (receiveLoss s))
             (s\<lparr>currLossCounter := 0, currReceiveCounter := 0\<rparr>)
      else s)"

text \<open>Lines 236-301, for the handle \<open>uas\<close> that lines 188-233 ended with.\<close>

definition countAndEmit ::
  "LinkInterface \<Rightarrow> mavlink_message \<Rightarrow> 'u option \<Rightarrow> ('p, 'r) protocol \<Rightarrow> ('p, 'r) protocol" where
  "countAndEmit link message uas s =
     (case uas of
        None \<Rightarrow> s
      | Some u \<Rightarrow>
          (let s1 = countReceived s;
               lastLoss = totalLossCounter s1;
               s2 = trackSequence message s1;
               s3 = reportLoss message lastLoss s2
           in emit (messageReceived link message) s3))"

subsection \<open>\<^verbatim>\<open>receiveBytes\<close>\<close>

text \<open>
  Lines 185-301: what is done with a decoded message after the logging block. The
  \<^verbatim>\<open>continue\<close> of line 228 is the branch that returns without \<open>countAndEmit\<close>.
\<close>

text \<open>Lines 200-203.\<close>

definition checkSystemId :: "mavlink_message \<Rightarrow> ('p, 'r) protocol \<Rightarrow> ('p, 'r) protocol" where
  "checkSystemId message s =
     (if uint (sysid message) = systemId s
      then emit (protocolStatusMessage (SystemIdConflict (systemId s))) s
      else s)"

definition admitMessage ::
  "('p, 'r, 'u) externals \<Rightarrow> LinkInterface \<Rightarrow> mavlink_message
     \<Rightarrow> ('p, 'r) protocol \<Rightarrow> ('p, 'r) protocol" where
  "admitMessage E link message s =
     (let uas = getUASForId E (uasManager s) (sysid message)
      in if uas = None \<and> msgid message = MAVLINK_MSG_ID_HEARTBEAT E then
           (let s1 = checkSystemId message s;
                heartbeat = mavlink_msg_heartbeat_decode E message
            in if m_enable_version_check s1 \<and> mavlink_version heartbeat \<noteq> MAVLINK_VERSION E
               then (if \<not> versionMismatchIgnore s1
                     then (emit (protocolStatusMessage
                                   (VersionMismatch (sysid message) (mavlink_version heartbeat)
                                      (MAVLINK_VERSION E))) s1)
                            \<lparr>versionMismatchIgnore := True\<rparr>
                     else s1)
               else (let (uas', r) = createUAS E link (sysid message) heartbeat (uasManager s1);
                         s2 = (emit (createUAS_called link (sysid message) heartbeat) s1)
                                \<lparr>uasManager := r\<rparr>
                     in countAndEmit link message uas' s2))
         else countAndEmit link message uas s)"

text \<open>
  The body of \<^verbatim>\<open>if (decodeState == 1)\<close>, lines 167-301. \<open>time\<close> is what
  \<^verbatim>\<open>QGC::groundTimeUsecs()\<close> returns and \<open>buf\<close> what the array of line 171 holds.
\<close>

definition handleMessage ::
  "('p, 'r, 'u) externals \<Rightarrow> LinkInterface \<Rightarrow> quint64 \<Rightarrow> u8 list \<Rightarrow> mavlink_message
     \<Rightarrow> ('p, 'r) protocol \<Rightarrow> ('p, 'r) protocol" where
  "handleMessage E link time buf message s =
     admitMessage E link message (logMessage E time buf message s)"

text \<open>
  The loop of \<^verbatim>\<open>receiveBytes\<close> from index \<open>position\<close> on. \<open>clock position\<close> and
  \<open>stack position\<close> are the time and the contents of the array of line 171 when the
  byte at \<open>position\<close> completes a message. The mutex is not modelled: calls are
  executed one after the other.
\<close>

fun receiveLoop ::
  "('p, 'r, 'u) externals \<Rightarrow> LinkInterface \<Rightarrow> (nat \<Rightarrow> quint64) \<Rightarrow> (nat \<Rightarrow> u8 list)
     \<Rightarrow> nat \<Rightarrow> u8 list \<Rightarrow> ('p, 'r) protocol \<Rightarrow> ('p, 'r) protocol" where
  "receiveLoop E link clock stack position [] s = s"
| "receiveLoop E link clock stack position (c # b) s =
     (case mavlink_parse_char E (word_of_int (getId link)) c (mavlink_status s) of
        (p, None) \<Rightarrow>
          receiveLoop E link clock stack (Suc position) b (s\<lparr>mavlink_status := p\<rparr>)
      | (p, Some message) \<Rightarrow>
          receiveLoop E link clock stack (Suc position) b
            (handleMessage E link (clock position) (stack position) message
               (s\<lparr>mavlink_status := p\<rparr>)))"

definition receiveBytes ::
  "('p, 'r, 'u) externals \<Rightarrow> LinkInterface \<Rightarrow> (nat \<Rightarrow> quint64) \<Rightarrow> (nat \<Rightarrow> u8 list)
     \<Rightarrow> u8 list \<Rightarrow> ('p, 'r) protocol \<Rightarrow> ('p, 'r) protocol" where
  "receiveBytes E link clock stack b s = receiveLoop E link clock stack 0 b s"

subsection \<open>The setters, the constructor and a run of the object\<close>

definition enableHeartbeats :: "bool \<Rightarrow> ('p, 'r) protocol \<Rightarrow> ('p, 'r) protocol" where
  "enableHeartbeats enabled s = emit (heartbeatChanged enabled) (s\<lparr>m_heartbeatsEnabled := enabled\<rparr>)"

definition enableVersionCheck :: "bool \<Rightarrow> ('p, 'r) protocol \<Rightarrow> ('p, 'r) protocol" where
  "enableVersionCheck enabled s =
     emit (versionCheckChanged enabled) (s\<lparr>m_enable_version_check := enabled\<rparr>)"

definition setSystemId :: "int \<Rightarrow> ('p, 'r) protocol \<Rightarrow> ('p, 'r) protocol" where
  "setSystemId i s = s\<lparr>systemId := i\<rparr>"

text \<open>
  The group \<^verbatim>\<open>QGC_MAVLINK_PROTOCOL\<close> of the stored settings: \<open>None\<close> for a key
  that is not stored.
\<close>

record settings =
  HEARTBEATS_ENABLED :: "bool option"
  VERION_CHECK_ENABLED :: "bool option"
  LOGFILE_NAME :: "string option"
  LOGGING_ENABLED :: "bool option"
  GCS_SYSTEM_ID :: "int option"

definition loadSettings ::
  "('p, 'r, 'u) externals \<Rightarrow> settings \<Rightarrow> ('p, 'r) protocol \<Rightarrow> ('p, 'r) protocol" where
  "loadSettings E st s =
     (let s1 = enableHeartbeats
                 (case HEARTBEATS_ENABLED st of None \<Rightarrow> m_heartbeatsEnabled s | Some v \<Rightarrow> v) s;
          s2 = enableVersionCheck
                 (case VERION_CHECK_ENABLED st of None \<Rightarrow> m_enable_version_check s1 | Some v \<Rightarrow> v) s1;
          s3 = (case LOGFILE_NAME st of
                  None \<Rightarrow> s2
                | Some n \<Rightarrow>
                    if m_logfile s2 = None
                    then s2\<lparr>m_logfile := Some \<lparr>fileName = n, isOpen = False\<rparr>\<rparr>
                    else s2);
          s4 = enableLogging E
                 (case LOGGING_ENABLED st of None \<Rightarrow> m_loggingEnabled s3 | Some v \<Rightarrow> v) s3;
          temp = (case GCS_SYSTEM_ID st of None \<Rightarrow> systemId s4 | Some v \<Rightarrow> v)
      in if temp > 0 \<and> temp < 256 then s4\<lparr>systemId := temp\<rparr> else s4)"

text \<open>
  The constructor, lines 40-68, in a world with parser state \<open>p\<close>, registry \<open>r\<close> and
  files \<open>d\<close>. The heartbeat timer is not modelled.
\<close>

definition MAVLinkProtocol ::
  "('p, 'r, 'u) externals \<Rightarrow> settings \<Rightarrow> 'p \<Rightarrow> 'r \<Rightarrow> (string \<Rightarrow> u8 list) \<Rightarrow> ('p, 'r) protocol" where
  "MAVLinkProtocol E st p r d =
     (let s0 = \<lparr>heartbeatRate = MAVLINK_HEARTBEAT_DEFAULT_RATE E,
                m_heartbeatsEnabled = False,
                m_loggingEnabled = False,
                m_logfile = None,
                m_enable_version_check = True,
                versionMismatchIgnore = False,
                systemId = defaultSystemId E,
                totalReceiveCounter = 0,
                totalLossCounter = 0,
                currReceiveCounter = 0,
                currLossCounter = 0,
                lastIndex = (\<lambda>i j. - 1),
                mavlink_status = p,
                uasManager = r,
                disk = d,
                emitted = []\<rparr>;
          s1 = loadSettings E st s0;
          s2 = s1\<lparr>totalReceiveCounter := 0, totalLossCounter := 0,
                  currReceiveCounter := 0, currLossCounter := 0,
                  lastIndex := (\<lambda>i j. - 1)\<rparr>
      in emit (versionCheckChanged (m_enable_version_check s2)) s2)"

text \<open>The calls the rest of the application makes on the object while the process runs.\<close>

datatype call =
    ReceiveBytes LinkInterface "nat \<Rightarrow> quint64" "nat \<Rightarrow> u8 list" "u8 list"
  | EnableLogging bool
  | SetLogfileName string
  | EnableVersionCheck bool
  | EnableHeartbeats bool
  | SetSystemId int
  | LoadSettings settings

fun perform ::
  "('p, 'r, 'u) externals \<Rightarrow> call \<Rightarrow> ('p, 'r) protocol \<Rightarrow> ('p, 'r) protocol" where
  "perform E (ReceiveBytes link clock stack b) s = receiveBytes E link clock stack b s"
| "perform E (EnableLogging enabled) s = enableLogging E enabled s"
| "perform E (SetLogfileName filename) s = setLogfileName E filename s"
| "perform E (EnableVersionCheck enabled) s = enableVersionCheck enabled s"
| "perform E (EnableHeartbeats enabled) s = enableHeartbeats enabled s"
| "perform E (SetSystemId i) s = setSystemId i s"
| "perform E (LoadSettings st) s = loadSettings E st s"

fun run ::
  "('p, 'r, 'u) externals \<Rightarrow> call list \<Rightarrow> ('p, 'r) protocol \<Rightarrow> ('p, 'r) protocol" where
  "run E [] s = s"
| "run E (c # cs) s = run E cs (perform E c s)"

subsection \<open>A concrete world for the examples\<close>

text \<open>
  Modelled from the spec: the vehicle registry and the MAVLink library are not among the
  sources, so the examples below instantiate the parameters with a small world of their
  own. The registry is the list of the system ids that have a vehicle:
  \<open>lookup(system_id)\<close> finds an id of the list, and \<open>create\<close> adds the id and
  returns its handle (section 6 of the specification). A frame is the start marker
  \<open>0x55\<close>, the payload length, sequence number, system id, component id and message
  id, the payload, and two bytes in place of the checksum; the parser completes a
  message with every seventh byte (system id, component id, message id, sequence number
  and three payload bytes); a heartbeat's payload is its type, autopilot and version.
  Opening a file succeeds unless its name is empty, and a write is complete.
\<close>

definition examplePayload :: "u8 list \<Rightarrow> nat \<Rightarrow> u8" where
  "examplePayload bs i = (if i < length bs then bs ! i else 0)"

definition exampleE :: "(u8 list, u8 list, u8) externals" where
  "exampleE =
     \<lparr>MAVLINK_MAX_PACKET_LEN = 263,
      MAVLINK_VERSION = 2,
      MAVLINK_MSG_ID_HEARTBEAT = 0,
      mavlink_parse_char =
        (\<lambda>chan c p.
           case p of
             [a, b, k, q, x, y] \<Rightarrow>
               ([], Some \<lparr>sysid = a, compid = b, msgid = k, seq = q, payload = [x, y, c]\<rparr>)
           | _ \<Rightarrow> (p @ [c], None)),
      mavlink_msg_to_send_buffer =
        (\<lambda>m. [0x55, of_nat (length (payload m)), seq m, sysid m, compid m, msgid m]
               @ payload m @ [0, 0]),
      mavlink_msg_heartbeat_decode =
        (\<lambda>m. \<lparr>hb_type = examplePayload (payload m) 0,
                autopilot = examplePayload (payload m) 1,
                mavlink_version = examplePayload (payload m) 2\<rparr>),
      getUASForId = (\<lambda>r i. if i \<in> set r then Some i else None),
      createUAS = (\<lambda>link i hb r. (Some i, i # r)),
      qfile_open = (\<lambda>name. name \<noteq> []),
      qfile_write = (\<lambda>name old b. int (length b)),
      MAVLINK_HEARTBEAT_DEFAULT_RATE = 1,
      defaultSystemId = 255\<rparr>"

text \<open>The same world with a full disk: every write writes nothing.\<close>

definition exampleFullDisk :: "(u8 list, u8 list, u8) externals" where
  "exampleFullDisk = exampleE\<lparr>qfile_write := (\<lambda>name old b. 0)\<rparr>"

definition noSettings :: settings where
  "noSettings =
     \<lparr>HEARTBEATS_ENABLED = None, VERION_CHECK_ENABLED = None, LOGFILE_NAME = None,
      LOGGING_ENABLED = None, GCS_SYSTEM_ID = None\<rparr>"

text \<open>The object after its constructor, with no stored settings, no vehicle and no file.\<close>

definition exampleStart :: "(u8 list, u8 list) protocol" where
  "exampleStart = MAVLinkProtocol exampleE noSettings [] [] (\<lambda>name. [])"

definition exampleLink :: LinkInterface where
  "exampleLink = \<lparr>getId = 1\<rparr>"

text \<open>A heartbeat of system 7 with the supported version 2, and one with version 3.\<close>

definition exampleHeartbeat :: "u8 \<Rightarrow> mavlink_message" where
  "exampleHeartbeat q = \<lparr>sysid = 7, compid = 1, msgid = 0, seq = q, payload = [1, 0, 2]\<rparr>"

definition exampleOldHeartbeat :: "u8 \<Rightarrow> mavlink_message" where
  "exampleOldHeartbeat q = \<lparr>sysid = 7, compid = 1, msgid = 0, seq = q, payload = [1, 0, 3]\<rparr>"

text \<open>A message of system 7 that is not a heartbeat.\<close>

definition exampleData :: "u8 \<Rightarrow> mavlink_message" where
  "exampleData q = \<lparr>sysid = 7, compid = 1, msgid = 30, seq = q, payload = [9]\<rparr>"

subsection \<open>Predicates of the statements\<close>

text \<open>
  The range of the tracker's data: every entry of \<open>lastIndex\<close> is -1 (unset) or a
  sequence number, and no counter is negative.
\<close>

definition tracker_ok :: "('p, 'r) protocol \<Rightarrow> bool" where
  "tracker_ok s \<longleftrightarrow>
     (\<forall>sy co. - 1 \<le> lastIndex s sy co \<and> lastIndex s sy co \<le> 255) \<and>
     0 \<le> totalReceiveCounter s \<and> 0 \<le> totalLossCounter s \<and>
     0 \<le> currReceiveCounter s \<and> 0 \<le> currLossCounter s"

fun is_dispatch :: "effect \<Rightarrow> bool" where
  "is_dispatch (messageReceived link message) = True"
| "is_dispatch e = False"

fun is_create :: "effect \<Rightarrow> bool" where
  "is_create (createUAS_called link i hb) = True"
| "is_create e = False"

fun is_loss_report :: "effect \<Rightarrow> bool" where
  "is_loss_report (receiveLossChanged i ratio) = True"
| "is_loss_report e = False"

text \<open>A loss ratio that is no number: the result of a division by zero.\<close>

fun is_undefined_report :: "effect \<Rightarrow> bool" where
  "is_undefined_report (receiveLossChanged i NotFinite) = True"
| "is_undefined_report e = False"

fun is_version_warning :: "effect \<Rightarrow> bool" where
  "is_version_warning (protocolStatusMessage (VersionMismatch i v w)) = True"
| "is_version_warning e = False"

fun is_warning :: "effect \<Rightarrow> bool" where
  "is_warning (protocolStatusMessage t) = True"
| "is_warning e = False"

text \<open>How often the version warning occurs among signals.\<close>

definition versionWarnings :: "effect list \<Rightarrow> nat" where
  "versionWarnings es = length (filter is_version_warning es)"

text \<open>
  A step of the logging and configuration code: it emits no dispatch, no creation, no
  loss report and no version warning, and it leaves the tracker, the latch of the
  version warning, the registry and the parser as they are.
\<close>

definition quiet_step :: "('p, 'r) protocol \<Rightarrow> ('p, 'r) protocol \<Rightarrow> bool" where
  "quiet_step s s' \<longleftrightarrow>
     (\<exists>es. emitted s' = emitted s @ es \<and>
        list_all (\<lambda>e. \<not> is_dispatch e \<and> \<not> is_create e \<and> \<not> is_loss_report e \<and>
                       \<not> is_version_warning e) es) \<and>
     totalReceiveCounter s' = totalReceiveCounter s \<and>
     totalLossCounter s' = totalLossCounter s \<and>
     currReceiveCounter s' = currReceiveCounter s \<and>
     currLossCounter s' = currLossCounter s \<and>
     lastIndex s' = lastIndex s \<and>
     versionMismatchIgnore s' = versionMismatchIgnore s \<and>
     uasManager s' = uasManager s \<and>
     mavlink_status s' = mavlink_status s"


text \<open>A step from \<open>s\<close> to \<open>s'\<close> only adds signals, and none is an undefined loss ratio.\<close>

definition defined_step :: "('p, 'r) protocol \<Rightarrow> ('p, 'r) protocol \<Rightarrow> bool" where
  "defined_step s s' \<longleftrightarrow>
     (\<exists>es. emitted s' = emitted s @ es \<and> \<not> list_ex is_undefined_report es)"

text \<open>
  The object in the world \<open>E\<close> after its constructor, \<^verbatim>\<open>enableLogging(true)\<close> and
  \<^verbatim>\<open>setLogfileName("log")\<close>: it logs to the open file \<open>log\<close>.
\<close>

definition exampleLogging :: "(u8 list, u8 list, u8) externals \<Rightarrow> (u8 list, u8 list) protocol" where
  "exampleLogging E =
     run E [EnableLogging True, SetLogfileName ''log'']
       (MAVLinkProtocol E noSettings [] [] (\<lambda>name. []))"

text \<open>
  The object after the heartbeat with sequence number 0 of system 7: the vehicle exists
  and one message has been received.
\<close>

definition exampleVehicle :: "(u8 list, u8 list) protocol" where
  "exampleVehicle = handleMessage exampleE exampleLink 0 [] (exampleHeartbeat 0) exampleStart"

section \<open>Properties\<close>

subsection \<open>Rounding\<close>

declare bitlength.simps [simp del]

lemma bitlength_bounds:
  "0 < n \<Longrightarrow> 2 ^ (bitlength n - 1) \<le> n \<and> n < 2 ^ bitlength n"
proof (induction n rule: bitlength.induct)
  case (1 n)
  show ?case
  proof (cases "n div 2 = 0")
    case True
    then have n: "n = Suc 0" using 1(2) by (simp add: div_eq_0_iff)
    have "bitlength (Suc 0) = Suc 0"
      by (simp add: bitlength.simps[of "Suc 0"] bitlength.simps[of 0])
    then show ?thesis unfolding n by simp
  next
    case False
    let ?k = "bitlength (n div 2)"
    have IH: "2 ^ (?k - 1) \<le> n div 2" "n div 2 < 2 ^ ?k"
      using 1(1) 1(2) False by simp_all
    have k: "0 < ?k" using False by (simp add: bitlength.simps[of "n div 2"])
    have b: "bitlength n = Suc ?k" using 1(2) by (simp add: bitlength.simps[of n])
    have "2 * 2 ^ (?k - 1) \<le> 2 * (n div 2)" using IH(1) by simp
    moreover have "(2::nat) * 2 ^ (?k - 1) = 2 ^ ?k" using k by (cases ?k) simp_all
    moreover have "2 * (n div 2) \<le> n" by presburger
    ultimately have lo: "2 ^ ?k \<le> n" by linarith
    have "n div 2 + 1 \<le> 2 ^ ?k" using IH(2) by simp
    then have "2 * (n div 2) + 2 \<le> 2 * 2 ^ ?k" by simp
    moreover have "n \<le> 2 * (n div 2) + 1" by presburger
    ultimately have hi: "n < 2 ^ Suc ?k" by simp
    show ?thesis unfolding b using lo hi by simp
  qed
qed


lemma binary_exponent_bounds:
  assumes "0 < x"
  shows "2 powi (binary_exponent x) \<le> x \<and> x < 2 powi (binary_exponent x + 1)"
proof (cases "1 \<le> x")
  case True
  let ?n = "nat \<lfloor>x\<rfloor>"
  have n: "0 < ?n" using True by simp
  have e: "binary_exponent x = int (bitlength ?n) - 1" using True by (simp add: binary_exponent_def)
  have k: "0 < bitlength ?n" using n by (simp add: bitlength.simps[of ?n])
  from bitlength_bounds[OF n] have b: "2 ^ (bitlength ?n - 1) \<le> ?n" "?n < 2 ^ bitlength ?n"
    by simp_all
  have "real (2 ^ (bitlength ?n - 1)) \<le> real ?n" using b(1) by (simp only: of_nat_le_iff)
  also have "real ?n \<le> x" using True by simp
  finally have lo: "2 ^ (bitlength ?n - 1) \<le> x" by simp
  from b(2) have "Suc ?n \<le> 2 ^ bitlength ?n" by (rule Suc_leI)
  then have "real (Suc ?n) \<le> real (2 ^ bitlength ?n)" by (simp only: of_nat_le_iff)
  then have h1: "real (Suc ?n) \<le> 2 ^ bitlength ?n" by simp
  have h2: "real (Suc ?n) = of_int \<lfloor>x\<rfloor> + 1" using True by simp
  have h3: "x < of_int \<lfloor>x\<rfloor> + 1" by linarith
  have hi: "x < 2 ^ bitlength ?n" using h1 h2 h3 by linarith
  have p1: "(2::real) powi (int (bitlength ?n) - 1) = 2 ^ (bitlength ?n - 1)"
    using k by (simp add: power_int_def nat_diff_distrib') 
  have p2: "(2::real) powi (int (bitlength ?n) - 1 + 1) = 2 ^ bitlength ?n"
    by (simp add: power_int_def)
  show ?thesis unfolding e p1 p2 using lo hi by simp
next
  case False
  let ?c = "\<lceil>1 / x\<rceil>"
  let ?n = "nat (?c - 1)"
  let ?k = "bitlength ?n"
  have y: "1 < 1 / x" using assms False by simp
  then have c: "2 \<le> ?c" by linarith
  then have n: "0 < ?n" by simp
  have e: "binary_exponent x = - int ?k" using False by (simp add: binary_exponent_def)
  have k: "0 < ?k" using n by (simp add: bitlength.simps[of ?n])
  from bitlength_bounds[OF n] have b: "2 ^ (?k - 1) \<le> ?n" "?n < 2 ^ ?k"
    by simp_all
  have c1: "0 \<le> ?c - 1" using c by linarith
  have "real ?n = of_int (?c - 1)" by (rule of_nat_nat[OF c1])
  then have rn: "real ?n = of_int ?c - 1" by simp
  have "real (2 ^ (?k - 1)) \<le> real ?n" using b(1) by (simp only: of_nat_le_iff)
  then have g1: "2 ^ (?k - 1) \<le> real ?n" by simp
  have g2: "real ?n < 1 / x" unfolding rn by linarith
  have lo: "2 ^ (?k - 1) < 1 / x" using g1 g2 by linarith
  from b(2) have "Suc ?n \<le> 2 ^ ?k" by (rule Suc_leI)
  then have "real (Suc ?n) \<le> real (2 ^ ?k)" by (simp only: of_nat_le_iff)
  then have h1: "real (Suc ?n) \<le> 2 ^ ?k" by simp
  have h2: "real (Suc ?n) = of_int ?c" using rn by simp
  have h3: "1 / x \<le> of_int ?c" by linarith
  have hi: "1 / x \<le> 2 ^ ?k" using h1 h2 h3 by linarith
  have a: "1 / 2 ^ ?k \<le> x"
    using hi assms by (simp add: field_simps)
  have b2: "x < 1 / 2 ^ (?k - 1)"
    using lo assms by (simp add: field_simps)
  have p1: "(2::real) powi (- int ?k) = 1 / 2 ^ ?k"
    by (simp add: power_int_def field_simps)
  have p2: "(2::real) powi (- int ?k + 1) = 1 / 2 ^ (?k - 1)"
    using k by (cases ?k) (simp_all add: power_int_def field_simps nat_diff_distrib')
  show ?thesis unfolding e p1 p2 using a b2 by simp
qed

lemma round_half_even_bounds:
  "\<lfloor>x\<rfloor> \<le> round_half_even x \<and> round_half_even x \<le> \<lfloor>x\<rfloor> + 1
   \<and> \<bar>of_int (round_half_even x) - x\<bar> \<le> 1 / 2"
proof -
  define f where "f = \<lfloor>x\<rfloor>"
  have f: "of_int f \<le> x" "x < of_int f + 1" unfolding f_def by linarith+
  have r: "round_half_even x =
      (if x - of_int f < 1 / 2 then f
       else if 1 / 2 < x - of_int f then f + 1 else if even f then f else f + 1)"
    by (simp only: round_half_even_def Let_def f_def)
  consider "x - of_int f < 1 / 2" | "1 / 2 < x - of_int f" | "x - of_int f = 1 / 2"
    by linarith
  then have "f \<le> round_half_even x \<and> round_half_even x \<le> f + 1
   \<and> \<bar>of_int (round_half_even x) - x\<bar> \<le> 1 / 2"
  proof cases
    case 1
    then have "round_half_even x = f" by (simp only: r if_True)
    then show ?thesis using f 1 by (simp add: abs_if)
  next
    case 2
    then have "\<not> x - of_int f < 1 / 2" by linarith
    then have "round_half_even x = f + 1" using 2 by (simp only: r if_True if_False)
    then show ?thesis using f 2 by (simp add: abs_if)
  next
    case 3
    then have "round_half_even x = f \<or> round_half_even x = f + 1"
      unfolding r by (simp only: if_False less_irrefl) (simp split: if_splits)
    then show ?thesis using f 3 by (auto simp: abs_if)
  qed
  then show ?thesis unfolding f_def .
qed

lemma round_half_even_of_int: "round_half_even (of_int n) = n"
  by (simp add: round_half_even_def)

lemma ieee_round_scaled:
  assumes "0 < p" and "x \<noteq> 0"
  defines "u \<equiv> 2 powi (binary_exponent \<bar>x\<bar> - (int p - 1))"
  shows "0 < u" and "2 ^ (p - 1) \<le> \<bar>x\<bar> / u" and "\<bar>x\<bar> / u < 2 ^ p"
proof -
  let ?e = "binary_exponent \<bar>x\<bar>"
  have a: "0 < \<bar>x\<bar>" using assms(2) by simp
  show u: "0 < u" unfolding u_def by simp
  have b: "2 powi ?e \<le> \<bar>x\<bar>" "\<bar>x\<bar> < 2 powi (?e + 1)"
    using binary_exponent_bounds[OF a] by simp_all
  obtain q where q: "p = Suc q" using assms(1) by (cases p) simp_all
  have uq: "u = 2 powi ?e / 2 ^ q"
    unfolding u_def q by (simp add: power_int_diff)
  have e1: "(2::real) powi ?e = u * 2 ^ (p - 1)"
    unfolding uq q by simp
  have e2: "(2::real) powi (?e + 1) = u * 2 ^ p"
    unfolding uq q by (simp add: power_int_add)
  show "2 ^ (p - 1) \<le> \<bar>x\<bar> / u" using b(1) u unfolding e1 by (simp add: field_simps)
  show "\<bar>x\<bar> / u < 2 ^ p" using b(2) u unfolding e2 by (simp add: field_simps)
qed

lemma ieee_round_pos:
  assumes "0 < p" and "0 < x"
  shows "0 < ieee_round p x"
proof -
  let ?u = "2 powi (binary_exponent \<bar>x\<bar> - (int p - 1))"
  have x: "x \<noteq> 0" using assms(2) by simp
  note s = ieee_round_scaled[OF assms(1) x]
  have "(1::real) \<le> 2 ^ (p - 1)" by simp
  then have "1 \<le> \<bar>x\<bar> / ?u" using s(2) by linarith
  then have "1 \<le> \<lfloor>\<bar>x\<bar> / ?u\<rfloor>" by linarith
  then have "1 \<le> round_half_even (\<bar>x\<bar> / ?u)"
    using round_half_even_bounds[of "\<bar>x\<bar> / ?u"] by linarith
  then have "0 < real_of_int (round_half_even (\<bar>x\<bar> / ?u))" by simp
  then have "0 < real_of_int (round_half_even (\<bar>x\<bar> / ?u)) * ?u"
    using s(1) by (rule mult_pos_pos)
  then show ?thesis using assms(2) by (simp add: ieee_round_def Let_def)
qed

lemma ieee_round_error:
  assumes "0 < p"
  shows "\<bar>ieee_round p x - x\<bar> \<le> \<bar>x\<bar> / 2 ^ p"
proof (cases "x = 0")
  case True
  then show ?thesis by (simp add: ieee_round_def)
next
  case False
  let ?u = "2 powi (binary_exponent \<bar>x\<bar> - (int p - 1))"
  let ?m = "real_of_int (round_half_even (\<bar>x\<bar> / ?u))"
  note s = ieee_round_scaled[OF assms False]
  have r: "\<bar>?m - \<bar>x\<bar> / ?u\<bar> \<le> 1 / 2"
    using round_half_even_bounds[of "\<bar>x\<bar> / ?u"] by simp
  have "\<bar>?m * ?u - \<bar>x\<bar>\<bar> = \<bar>?m - \<bar>x\<bar> / ?u\<bar> * ?u"
  proof -
    have "?m * ?u - \<bar>x\<bar> = (?m - \<bar>x\<bar> / ?u) * ?u" using s(1) by (simp add: field_simps)
    then have "\<bar>?m * ?u - \<bar>x\<bar>\<bar> = \<bar>?m - \<bar>x\<bar> / ?u\<bar> * \<bar>?u\<bar>" by (simp only: abs_mult)
    then show ?thesis using s(1) by simp
  qed
  also have "\<dots> \<le> 1 / 2 * ?u" using r s(1) by (intro mult_right_mono) simp_all
  finally have e: "\<bar>?m * ?u - \<bar>x\<bar>\<bar> \<le> ?u / 2" by simp
  have "?u * 2 ^ (p - 1) \<le> \<bar>x\<bar>" using s(1,2) by (simp add: field_simps)
  moreover have "(2::real) ^ p = 2 * 2 ^ (p - 1)" using assms by (cases p) simp_all
  ultimately have h: "?u / 2 \<le> \<bar>x\<bar> / 2 ^ p" using s(1) by (simp add: field_simps)
  have "\<bar>ieee_round p x - x\<bar> = \<bar>?m * ?u - \<bar>x\<bar>\<bar>"
    using False by (simp add: ieee_round_def Let_def abs_if sgn_if algebra_simps)
  then show ?thesis using e h by linarith
qed

lemma ieee_round_of_int:
  assumes "\<bar>n\<bar> < 2 ^ p" and "0 < p"
  shows "ieee_round p (of_int n) = of_int n"
proof (cases "n = 0")
  case True
  then show ?thesis by (simp add: ieee_round_def)
next
  case False
  let ?x = "real_of_int n"
  let ?e = "binary_exponent \<bar>?x\<bar> - (int p - 1)"
  let ?u = "(2::real) powi ?e"
  have x: "?x \<noteq> 0" using False by simp
  note s = ieee_round_scaled[OF assms(2) x]
  have a: "0 < \<bar>?x\<bar>" using False by simp
  have "2 powi (binary_exponent \<bar>?x\<bar>) \<le> \<bar>?x\<bar>"
    using binary_exponent_bounds[OF a] by simp
  also have "\<bar>?x\<bar> < 2 ^ p" using assms(1) by (metis of_int_abs of_int_less_iff of_int_numeral of_int_power)
  finally have "(2::real) powi (binary_exponent \<bar>?x\<bar>) < 2 powi (int p)" by simp
  then have "binary_exponent \<bar>?x\<bar> < int p"
    by (intro power_int_le_imp_less_exp[of "2::real"]) simp_all
  then have neg: "?e \<le> 0" by simp
  then have u: "?u = 1 / 2 ^ nat (- ?e)"
    by (simp add: power_int_def field_simps)
  have "\<bar>?x\<bar> / ?u = of_int (\<bar>n\<bar> * 2 ^ nat (- ?e))"
    unfolding u by simp
  then have "round_half_even (\<bar>?x\<bar> / ?u) = \<bar>n\<bar> * 2 ^ nat (- ?e)"
    by (simp only: round_half_even_of_int)
  then have "real_of_int (round_half_even (\<bar>?x\<bar> / ?u)) * ?u = \<bar>?x\<bar>"
    unfolding u by simp
  then show ?thesis using False
    by (simp add: ieee_round_def Let_def abs_if sgn_if split: if_splits)
qed

subsection \<open>The loop of the sequence tracker\<close>

declare lossLoop.simps [simp del]

lemma mod_shift: "- 256 \<le> (x::int) \<Longrightarrow> x < 0 \<Longrightarrow> x mod 256 = x + 256"
proof -
  assume a: "- 256 \<le> x" "x < 0"
  have "x mod 256 = (x + 256) mod 256" by (simp only: mod_add_self2)
  also have "\<dots> = x + 256" by (rule mod_pos_pos_trivial) (use a in simp_all)
  finally show ?thesis .
qed

lemma gap_step: "(i::int) \<noteq> q \<Longrightarrow> 0 \<le> q \<Longrightarrow> q < 256 \<Longrightarrow> 0 \<le> i \<Longrightarrow> i \<le> 255 \<Longrightarrow>
  (q - i) mod 256 = (q - (i + 1) mod 256) mod 256 + 1"
proof -
  assume a: "i \<noteq> q" "0 \<le> q" "q < 256" "0 \<le> i" "i \<le> 255"
  have e: "(q - (i + 1) mod 256) mod 256 = (q - i - 1) mod 256"
    by (simp add: mod_simps algebra_simps)
  show ?thesis
  proof (cases "i < q")
    case True
    then have "(q - i) mod 256 = q - i" "(q - i - 1) mod 256 = q - i - 1" using a by simp_all
    then show ?thesis using e by simp
  next
    case False
    then have lt: "q < i" using a by simp
    have x: "(q - i) mod 256 = q - i + 256" by (rule mod_shift) (use a lt in simp_all)
    have y: "(q - i - 1) mod 256 = q - i - 1 + 256" by (rule mod_shift) (use a lt in simp_all)
    show ?thesis unfolding e x y by simp
  qed
qed

lemma gap_done: "\<not> ((i::int) \<noteq> q \<and> g < 255) \<Longrightarrow> g \<le> 255 \<Longrightarrow> 0 \<le> g \<Longrightarrow> min ((q - i) mod 256) (255 - g) = 0"
  by (cases "i = q") (auto simp: min_def)

lemma cursor_step: "((i + 1) mod 256 + k) mod 256 = ((i::int) + (k + 1)) mod 256"
  by (simp add: mod_simps add.commute add.left_commute)

lemma setLastIndex_read:
  "lastIndex (setLastIndex sy co v s) a b = (if a = sy \<and> b = co then v else lastIndex s a b)"
  by (simp add: setLastIndex_def)

lemma incLastIndex_as_set:
  "0 \<le> lastIndex s sy co \<Longrightarrow> lastIndex s sy co \<le> 255 \<Longrightarrow>
   incLastIndex sy co s = setLastIndex sy co ((lastIndex s sy co + 1) mod 256) s"
  by (auto simp: incLastIndex_def)

lemma setLastIndex_same:
  "v = lastIndex s sy co \<Longrightarrow> setLastIndex sy co v s = s"
  by (simp add: setLastIndex_def)

lemma setLastIndex_twice:
  "setLastIndex sy co v
     ((setLastIndex sy co w s)\<lparr>totalLossCounter := a, currLossCounter := b\<rparr>)
   = (setLastIndex sy co v s)\<lparr>totalLossCounter := a, currLossCounter := b\<rparr>"
  by (simp add: setLastIndex_def)

lemma lossLoop_stop:
  "\<not> (lastIndex s (sysid m) (compid m) \<noteq> uint (seq m) \<and> g < 255) \<Longrightarrow> lossLoop m g s = (g, s)"
  by (subst lossLoop.simps) (rule if_not_P, assumption)

lemma lossLoop_step:
  "lastIndex s (sysid m) (compid m) \<noteq> uint (seq m) \<and> g < 255 \<Longrightarrow>
   lossLoop m g s =
     lossLoop m (g + 1)
       ((incLastIndex (sysid m) (compid m) s)
          \<lparr>totalLossCounter := totalLossCounter s + 1,
           currLossCounter := currLossCounter s + 1\<rparr>)"
  by (subst lossLoop.simps) (rule if_P, assumption)

lemma lossLoop_closed:
  "0 \<le> lastIndex s (sysid m) (compid m) \<Longrightarrow> lastIndex s (sysid m) (compid m) \<le> 255 \<Longrightarrow>
   0 \<le> g \<Longrightarrow> g \<le> 255 \<Longrightarrow>
   lossLoop m g s =
     (let k = min ((uint (seq m) - lastIndex s (sysid m) (compid m)) mod 256) (255 - g)
      in (g + k,
          (setLastIndex (sysid m) (compid m) ((lastIndex s (sysid m) (compid m) + k) mod 256) s)
            \<lparr>totalLossCounter := totalLossCounter s + k,
             currLossCounter := currLossCounter s + k\<rparr>))"
proof (induction m g s rule: lossLoop.induct)
  case (1 m g s)
  let ?i = "lastIndex s (sysid m) (compid m)"
  let ?q = "uint (seq m)"
  have q: "0 \<le> ?q" "?q < 256" using uint_bounded[of "seq m"] by simp_all
  show ?case
  proof (cases "?i \<noteq> ?q \<and> g < 255")
    case False
    have k0: "min ((?q - ?i) mod 256) (255 - g) = 0"
      using False 1(4,5) by (intro gap_done) simp_all
    have same: "setLastIndex (sysid m) (compid m) (?i mod 256) s = s"
      using 1(2,3) by (intro setLastIndex_same) simp
    have "lossLoop m g s = (g, s)"
      using False by (rule lossLoop_stop)
    then show ?thesis
      unfolding Let_def k0 by (simp add: same)
  next
    case True
    let ?s' = "(incLastIndex (sysid m) (compid m) s)
                \<lparr>totalLossCounter := totalLossCounter s + 1,
                 currLossCounter := currLossCounter s + 1\<rparr>"
    let ?i' = "(?i + 1) mod 256"
    let ?k' = "min ((?q - ?i') mod 256) (255 - (g + 1))"
    have inc: "incLastIndex (sysid m) (compid m) s = setLastIndex (sysid m) (compid m) ?i' s"
      using 1(2,3) by (rule incLastIndex_as_set)
    have i': "lastIndex ?s' (sysid m) (compid m) = ?i'"
      by (simp add: inc setLastIndex_read)
    have d: "(?q - ?i) mod 256 = (?q - ?i') mod 256 + 1"
      using True q 1(2,3) by (intro gap_step) simp_all
    have kk: "min ((?q - ?i) mod 256) (255 - g) = ?k' + 1"
      unfolding d using True by (simp add: min_def)
    have IH: "lossLoop m (g + 1) ?s' =
          (g + 1 + ?k',
           (setLastIndex (sysid m) (compid m) ((?i' + ?k') mod 256) ?s')
             \<lparr>totalLossCounter := totalLossCounter ?s' + ?k',
              currLossCounter := currLossCounter ?s' + ?k'\<rparr>)"
    proof -
      have r: "0 \<le> ?i'" "?i' \<le> 255" by simp_all
      show ?thesis
        using 1(1)[OF True, unfolded i' Let_def, OF r] True 1(4) by simp
    qed
    have step: "lossLoop m g s = lossLoop m (g + 1) ?s'"
      using True by (rule lossLoop_step)
    show ?thesis
      apply (simp only: step IH Let_def kk cursor_step)
      apply (simp add: inc setLastIndex_def add.assoc)
      done
  qed
qed


lemma lossLoop_shape:
  "0 \<le> g \<Longrightarrow> g \<le> 255 \<Longrightarrow>
   \<exists>k L. 0 \<le> k \<and> g + k \<le> 255 \<and>
     lossLoop m g s =
       (g + k, s\<lparr>lastIndex := L,
                   totalLossCounter := totalLossCounter s + k,
                   currLossCounter := currLossCounter s + k\<rparr>)"
proof (induction m g s rule: lossLoop.induct)
  case (1 m g s)
  show ?case
  proof (cases "lastIndex s (sysid m) (compid m) \<noteq> uint (seq m) \<and> g < 255")
    case False
    have "lossLoop m g s = (g + 0, s\<lparr>lastIndex := lastIndex s,
             totalLossCounter := totalLossCounter s + 0,
             currLossCounter := currLossCounter s + 0\<rparr>)"
      using lossLoop_stop[OF False] by simp
    then show ?thesis using 1(3) by (intro exI[of _ 0] exI[of _ "lastIndex s"]) simp
  next
    case True
    let ?s' = "(incLastIndex (sysid m) (compid m) s)
                \<lparr>totalLossCounter := totalLossCounter s + 1,
                 currLossCounter := currLossCounter s + 1\<rparr>"
    from 1(1)[OF True] 1(2) True obtain k L where
      k: "0 \<le> k" "g + 1 + k \<le> 255" and
      eq: "lossLoop m (g + 1) ?s' =
         (g + 1 + k, ?s'\<lparr>lastIndex := L,
                   totalLossCounter := totalLossCounter ?s' + k,
                   currLossCounter := currLossCounter ?s' + k\<rparr>)"
      by auto
    have "lossLoop m g s = (g + (k + 1), s\<lparr>lastIndex := L,
                   totalLossCounter := totalLossCounter s + (k + 1),
                   currLossCounter := currLossCounter s + (k + 1)\<rparr>)"
      unfolding lossLoop_step[OF True] eq
      by (simp add: incLastIndex_def setLastIndex_def)
    then show ?thesis using k by (intro exI[of _ "k + 1"] exI[of _ L]) simp
  qed
qed

lemma trackSequence_shape:
  "\<exists>k L. 0 \<le> k \<and> k \<le> 255 \<and>
     trackSequence m s =
       s\<lparr>lastIndex := L,
          totalLossCounter := totalLossCounter s + k,
          currLossCounter := currLossCounter s + k\<rparr>"
proof (cases "lastIndex s (sysid m) (compid m) = - 1")
  case True
  then have "trackSequence m s =
       s\<lparr>lastIndex := (lastIndex s)(sysid m := (lastIndex s (sysid m))(compid m := uint (seq m))),
          totalLossCounter := totalLossCounter s + 0,
          currLossCounter := currLossCounter s + 0\<rparr>"
    by (simp add: trackSequence_def setLastIndex_def)
  then show ?thesis by (intro exI[of _ 0] exI) simp
next
  case False
  let ?s' = "incLastIndex (sysid m) (compid m) s"
  obtain k L where k: "0 \<le> k" "0 + k \<le> 255" and
    eq: "lossLoop m 0 ?s' = (0 + k, ?s'\<lparr>lastIndex := L,
                   totalLossCounter := totalLossCounter ?s' + k,
                   currLossCounter := currLossCounter ?s' + k\<rparr>)"
    using lossLoop_shape[of 0 m ?s'] by auto
  have "trackSequence m s = snd (lossLoop m 0 ?s')"
    using False by (simp add: trackSequence_def)
  also have "\<dots> = ?s'\<lparr>lastIndex := L,
                   totalLossCounter := totalLossCounter ?s' + k,
                   currLossCounter := currLossCounter ?s' + k\<rparr>"
    by (simp only: eq snd_conv)
  also have "\<dots> = s\<lparr>lastIndex := L,
          totalLossCounter := totalLossCounter s + k,
          currLossCounter := currLossCounter s + k\<rparr>"
    by (simp add: incLastIndex_def setLastIndex_def)
  finally have "trackSequence m s = s\<lparr>lastIndex := L,
          totalLossCounter := totalLossCounter s + k,
          currLossCounter := currLossCounter s + k\<rparr>" .
  then show ?thesis using k by (intro exI[of _ k] exI[of _ L]) simp
qed

lemma trackSequence_first:
  "lastIndex s (sysid m) (compid m) = - 1 \<Longrightarrow>
   trackSequence m s = setLastIndex (sysid m) (compid m) (uint (seq m)) s"
  by (simp add: trackSequence_def)

lemma gap_word: "(uint (q::8 word) - uint (l::8 word) - 1) mod 256 = uint (q - l - 1)"
  by (simp add: uint_word_ariths mod_simps)

lemma trackSequence_next:
  assumes "lastIndex s (sysid m) (compid m) = uint (l::8 word)"
  shows "trackSequence m s =
     (setLastIndex (sysid m) (compid m) (uint (seq m)) s)
       \<lparr>totalLossCounter := totalLossCounter s + uint (seq m - l - 1),
        currLossCounter := currLossCounter s + uint (seq m - l - 1)\<rparr>"
proof -
  let ?sy = "sysid m" and ?co = "compid m"
  let ?i = "uint l"
  let ?q = "uint (seq m)"
  let ?i' = "(?i + 1) mod 256"
  let ?s' = "setLastIndex ?sy ?co ?i' s"
  have l: "0 \<le> ?i" "?i \<le> 255" using uint_bounded[of l] by simp_all
  have q: "0 \<le> ?q" "?q < 256" using uint_bounded[of "seq m"] by simp_all
  have ne: "lastIndex s ?sy ?co \<noteq> - 1" unfolding assms using l(1) by linarith
  have inc: "incLastIndex ?sy ?co s = ?s'"
    using incLastIndex_as_set[of s ?sy ?co] assms l by simp
  have i': "lastIndex ?s' ?sy ?co = ?i'" by (simp add: setLastIndex_read)
  have k: "min ((?q - ?i') mod 256) (255 - 0) = uint (seq m - l - 1)"
  proof -
    have "(?q - ?i') mod 256 = (?q - ?i - 1) mod 256" by (simp add: mod_simps algebra_simps)
    also have "\<dots> = uint (seq m - l - 1)" by (rule gap_word)
    finally have e: "(?q - ?i') mod 256 = uint (seq m - l - 1)" .
    have "uint (seq m - l - 1) \<le> 255" using uint_bounded[of "seq m - l - 1"] by simp
    then show ?thesis unfolding e by simp
  qed
  have fin: "(?i' + uint (seq m - l - 1)) mod 256 = ?q"
  proof -
    have "(?i' + uint (seq m - l - 1)) mod 256 = (?i + 1 + (?q - ?i - 1) mod 256) mod 256"
      unfolding gap_word by (simp add: mod_simps)
    also have "\<dots> = ?q mod 256" by (simp add: mod_simps)
    also have "\<dots> = ?q" using q by simp
    finally show ?thesis .
  qed
  have "lossLoop m 0 ?s' =
      (0 + uint (seq m - l - 1),
       (setLastIndex ?sy ?co ?q ?s')
            \<lparr>totalLossCounter := totalLossCounter ?s' + uint (seq m - l - 1),
             currLossCounter := currLossCounter ?s' + uint (seq m - l - 1)\<rparr>)"
    using lossLoop_closed[of ?s' m 0] unfolding i' Let_def k fin by simp
  then have "snd (lossLoop m 0 ?s') =
       (setLastIndex ?sy ?co ?q ?s')
            \<lparr>totalLossCounter := totalLossCounter ?s' + uint (seq m - l - 1),
             currLossCounter := currLossCounter ?s' + uint (seq m - l - 1)\<rparr>"
    by (simp only: snd_conv)
  moreover have "trackSequence m s = snd (lossLoop m 0 ?s')"
    using ne by (simp add: trackSequence_def inc)
  ultimately show ?thesis
    by (simp add: setLastIndex_def)
qed

subsection \<open>Counting a message\<close>
lemma exampleStart_eq:
  "exampleStart =
     \<lparr>heartbeatRate = 1, m_heartbeatsEnabled = False, m_loggingEnabled = False,
      m_logfile = None, m_enable_version_check = True, versionMismatchIgnore = False,
      systemId = 255, totalReceiveCounter = 0, totalLossCounter = 0,
      currReceiveCounter = 0, currLossCounter = 0, lastIndex = (\<lambda>i j. - 1),
      mavlink_status = [], uasManager = [], disk = (\<lambda>name. []),
      emitted = [heartbeatChanged False, versionCheckChanged True, versionCheckChanged True]\<rparr>"
  by (simp add: exampleStart_def MAVLinkProtocol_def loadSettings_def noSettings_def
      enableHeartbeats_def enableVersionCheck_def enableLogging_def closeLogfile_def
      emit_def exampleE_def Let_def)

lemma countAndEmit_Some:
  "countAndEmit link m (Some u) s =
     emit (messageReceived link m)
       (reportLoss m (totalLossCounter s) (trackSequence m (countReceived s)))"
  by (simp add: countAndEmit_def Let_def countReceived_def)

lemma countAndEmit_None: "countAndEmit link m None s = s"
  by (simp add: countAndEmit_def)

lemma countAndEmit_totalLoss:
  "totalLossCounter (countAndEmit link m (Some u) s) =
     totalLossCounter (trackSequence m (countReceived s))"
  by (simp add: countAndEmit_Some emit_def reportLoss_def)

lemma countAndEmit_lastIndex:
  "lastIndex (countAndEmit link m (Some u) s) = lastIndex (trackSequence m (countReceived s))"
  by (simp add: countAndEmit_Some emit_def reportLoss_def)

lemma countAndEmit_totalReceive:
  "totalReceiveCounter (countAndEmit link m (Some u) s) = totalReceiveCounter s + 1"
proof -
  obtain k L where "trackSequence m (countReceived s) =
       (countReceived s)\<lparr>lastIndex := L,
          totalLossCounter := totalLossCounter (countReceived s) + k,
          currLossCounter := currLossCounter (countReceived s) + k\<rparr>"
    using trackSequence_shape[of m "countReceived s"] by blast
  then show ?thesis
    by (simp add: countAndEmit_Some emit_def reportLoss_def countReceived_def)
qed

subsection \<open>Quiet steps\<close>

lemma quiet_step_refl: "quiet_step s s"
  by (simp add: quiet_step_def)

lemma quiet_step_trans: "quiet_step s t \<Longrightarrow> quiet_step t u \<Longrightarrow> quiet_step s u"
  by (auto simp: quiet_step_def)

lemma quiet_enableLogging: "quiet_step s (enableLogging E enabled s)"
  by (auto simp: quiet_step_def enableLogging_def closeLogfile_def emit_def Let_def
      split: option.splits)

lemma quiet_setLogfileName: "quiet_step s (setLogfileName E filename s)"
proof -
  let ?s1 = "case m_logfile s of
                  None \<Rightarrow> s\<lparr>m_logfile := Some \<lparr>fileName = filename, isOpen = False\<rparr>\<rparr>
                | Some f \<Rightarrow> s\<lparr>m_logfile := Some (f\<lparr>isOpen := False\<rparr>)\<rparr>"
  let ?s2 = "?s1\<lparr>m_logfile := map_option (\<lambda>f. f\<lparr>fileName := filename\<rparr>) (m_logfile ?s1)\<rparr>"
  have "quiet_step s ?s2" by (simp add: quiet_step_def split: option.splits)
  moreover have "quiet_step ?s2 (enableLogging E (m_loggingEnabled ?s2) ?s2)"
    by (rule quiet_enableLogging)
  ultimately show ?thesis
    unfolding setLogfileName_def Let_def by (rule quiet_step_trans)
qed

lemma quiet_enableHeartbeats: "quiet_step s (enableHeartbeats enabled s)"
  by (simp add: quiet_step_def enableHeartbeats_def emit_def)

lemma quiet_enableVersionCheck: "quiet_step s (enableVersionCheck enabled s)"
  by (simp add: quiet_step_def enableVersionCheck_def emit_def)

lemma quiet_setSystemId: "quiet_step s (setSystemId i s)"
  by (simp add: quiet_step_def setSystemId_def)

lemma quiet_logMessage: "quiet_step s (logMessage E time buf message s)"
proof (cases "m_logfile s")
  case None
  then show ?thesis by (simp add: logMessage_def quiet_step_refl)
next
  case (Some f)
  show ?thesis
  proof (cases "m_loggingEnabled s")
    case False
    then show ?thesis using Some by (simp add: logMessage_def quiet_step_refl)
  next
    case True
    obtain n s1 where w: "QFile_write E f (logRecord E time buf message) s = (n, s1)"
      by (cases "QFile_write E f (logRecord E time buf message) s")
    have q1: "quiet_step s s1"
      using w by (auto simp: QFile_write_def quiet_step_def Let_def split: if_splits)
    let ?s2 = "emit (protocolStatusMessage (LoggingFailed (fileName f))) s1"
    have q2: "quiet_step s1 ?s2" by (simp add: quiet_step_def emit_def)
    have q3: "quiet_step ?s2 (enableLogging E False ?s2)" by (rule quiet_enableLogging)
    have "logMessage E time buf message s =
            (if shortWrite n (MAVLINK_MAX_PACKET_LEN E + 8) then enableLogging E False ?s2 else s1)"
      using Some True w by (simp add: logMessage_def)
    then show ?thesis
      using q1 quiet_step_trans[OF q1 quiet_step_trans[OF q2 q3]] by simp
  qed
qed

lemma quiet_loadSettings: "quiet_step s (loadSettings E st s)"
proof -
  let ?s1 = "enableHeartbeats
                 (case HEARTBEATS_ENABLED st of None \<Rightarrow> m_heartbeatsEnabled s | Some v \<Rightarrow> v) s"
  let ?s2 = "enableVersionCheck
                 (case VERION_CHECK_ENABLED st of None \<Rightarrow> m_enable_version_check ?s1 | Some v \<Rightarrow> v) ?s1"
  let ?s3 = "case LOGFILE_NAME st of
                  None \<Rightarrow> ?s2
                | Some n \<Rightarrow>
                    if m_logfile ?s2 = None
                    then ?s2\<lparr>m_logfile := Some \<lparr>fileName = n, isOpen = False\<rparr>\<rparr>
                    else ?s2"
  let ?s4 = "enableLogging E
                 (case LOGGING_ENABLED st of None \<Rightarrow> m_loggingEnabled ?s3 | Some v \<Rightarrow> v) ?s3"
  have a: "quiet_step s ?s1" by (rule quiet_enableHeartbeats)
  have b: "quiet_step ?s1 ?s2" by (rule quiet_enableVersionCheck)
  have c: "quiet_step ?s2 ?s3" by (simp add: quiet_step_def split: option.splits)
  have d: "quiet_step ?s3 ?s4" by (rule quiet_enableLogging)
  have e: "quiet_step s ?s4"
    by (rule quiet_step_trans[OF a quiet_step_trans[OF b quiet_step_trans[OF c d]]])
  have f: "quiet_step ?s4 (?s4\<lparr>systemId := x\<rparr>)" for x by (simp add: quiet_step_def)
  show ?thesis
    unfolding loadSettings_def Let_def
    using e quiet_step_trans[OF e f] by simp
qed

lemma quiet_tracker_ok: "quiet_step s s' \<Longrightarrow> tracker_ok s \<Longrightarrow> tracker_ok s'"
  by (simp add: quiet_step_def tracker_ok_def)

subsection \<open>The tracker's range is kept\<close>

lemma tracker_ok_emit [simp]: "tracker_ok (emit e s) = tracker_ok s"
  by (simp add: tracker_ok_def emit_def)

lemma tracker_ok_updates [simp]:
  "tracker_ok (s\<lparr>emitted := es\<rparr>) = tracker_ok s"
  "tracker_ok (s\<lparr>uasManager := r\<rparr>) = tracker_ok s"
  "tracker_ok (s\<lparr>versionMismatchIgnore := b\<rparr>) = tracker_ok s"
  "tracker_ok (s\<lparr>mavlink_status := p\<rparr>) = tracker_ok s"
  by (simp_all add: tracker_ok_def)

lemma trackSequence_range:
  assumes "- 1 \<le> lastIndex s (sysid m) (compid m)" "lastIndex s (sysid m) (compid m) \<le> 255"
  shows "lastIndex (trackSequence m s) =
           (lastIndex s)(sysid m := (lastIndex s (sysid m))(compid m := uint (seq m)))"
proof (cases "lastIndex s (sysid m) (compid m) = - 1")
  case True
  then show ?thesis by (simp add: trackSequence_first setLastIndex_def)
next
  case False
  let ?i = "lastIndex s (sysid m) (compid m)"
  have r: "0 \<le> ?i" "?i < 256" using assms False by simp_all
  have "uint (word_of_int ?i :: 8 word) = ?i"
    using r by (simp add: uint_word_of_int)
  then have "?i = uint (word_of_int ?i :: 8 word)" by simp
  from trackSequence_next[OF this] show ?thesis by (simp add: setLastIndex_def)
qed

lemma tracker_ok_countAndEmit:
  assumes "tracker_ok s"
  shows "tracker_ok (countAndEmit link m uas s)"
proof (cases uas)
  case None
  then show ?thesis using assms by (simp add: countAndEmit_None)
next
  case (Some u)
  let ?c = "countReceived s"
  let ?t = "trackSequence m ?c"
  have c: "tracker_ok ?c" using assms by (simp add: tracker_ok_def countReceived_def)
  obtain k L where k: "0 \<le> k" and
    sh: "?t = ?c\<lparr>lastIndex := L,
          totalLossCounter := totalLossCounter ?c + k,
          currLossCounter := currLossCounter ?c + k\<rparr>"
    using trackSequence_shape[of m ?c] by blast
  have li: "lastIndex ?t = (lastIndex ?c)(sysid m := (lastIndex ?c (sysid m))(compid m := uint (seq m)))"
    using c by (intro trackSequence_range) (simp_all add: tracker_ok_def)
  have "- 1 \<le> (0::int)" "0 \<le> uint (seq m)" by simp_all
  then have q1: "- 1 \<le> uint (seq m)" by (rule order_trans)
  have q: "- 1 \<le> uint (seq m)" "uint (seq m) \<le> 255"
    using q1 uint_bounded[of "seq m"] by simp_all
  have "\<forall>sy co. - 1 \<le> lastIndex ?t sy co \<and> lastIndex ?t sy co \<le> 255"
    unfolding li using c q by (simp add: tracker_ok_def)
  moreover have "0 \<le> totalReceiveCounter ?t" "0 \<le> totalLossCounter ?t"
    "0 \<le> currReceiveCounter ?t" "0 \<le> currLossCounter ?t"
    using c k by (simp_all add: sh tracker_ok_def)
  ultimately have t: "tracker_ok ?t" by (simp add: tracker_ok_def)
  have "tracker_ok (reportLoss m (totalLossCounter s) ?t)"
    using t by (simp add: reportLoss_def tracker_ok_def emit_def)
  then show ?thesis using Some by (simp add: countAndEmit_Some)
qed

lemma tracker_ok_admitMessage:
  "tracker_ok s \<Longrightarrow> tracker_ok (admitMessage E link m s)"
  by (auto simp: admitMessage_def checkSystemId_def Let_def tracker_ok_countAndEmit
      split: prod.splits)

lemma tracker_ok_handleMessage:
  "tracker_ok s \<Longrightarrow> tracker_ok (handleMessage E link time buf m s)"
  unfolding handleMessage_def
  by (intro tracker_ok_admitMessage quiet_tracker_ok[OF quiet_logMessage])

lemma receiveLoop_invariant:
  assumes parse: "\<And>s p. P s \<Longrightarrow> P (s\<lparr>mavlink_status := p\<rparr>)"
      and handle: "\<And>s time buf m. P s \<Longrightarrow> P (handleMessage E link time buf m s)"
  shows "P s \<Longrightarrow> P (receiveLoop E link clock stack position b s)"
proof (induction b arbitrary: position s)
  case Nil
  then show ?case by simp
next
  case (Cons c b)
  obtain p r where pr: "mavlink_parse_char E (word_of_int (getId link)) c (mavlink_status s) = (p, r)"
    by (cases "mavlink_parse_char E (word_of_int (getId link)) c (mavlink_status s)")
  show ?case
  proof (cases r)
    case None
    then show ?thesis using pr Cons.IH[OF parse[OF Cons.prems]] by simp
  next
    case (Some message)
    then show ?thesis using pr Cons.IH[OF handle[OF parse[OF Cons.prems]]] by simp
  qed
qed

lemma tracker_ok_perform: "tracker_ok s \<Longrightarrow> tracker_ok (perform E c s)"
proof (cases c)
  case (ReceiveBytes link clock stack b)
  assume "tracker_ok s"
  then have "tracker_ok (receiveLoop E link clock stack 0 b s)"
    by (rule receiveLoop_invariant[where P = tracker_ok, rotated 2])
       (simp_all add: tracker_ok_handleMessage)
  then show ?thesis using ReceiveBytes by (simp add: receiveBytes_def)
qed (simp_all add: quiet_tracker_ok[OF quiet_enableLogging] quiet_tracker_ok[OF quiet_setLogfileName]
      quiet_tracker_ok[OF quiet_enableVersionCheck] quiet_tracker_ok[OF quiet_enableHeartbeats]
      quiet_tracker_ok[OF quiet_setSystemId] quiet_tracker_ok[OF quiet_loadSettings])

lemma tracker_ok_run: "tracker_ok s \<Longrightarrow> tracker_ok (run E cs s)"
  by (induction cs arbitrary: s) (simp_all add: tracker_ok_perform)

lemma tracker_ok_constructor: "tracker_ok (MAVLinkProtocol E st p r d)"
  by (simp add: MAVLinkProtocol_def Let_def tracker_ok_def emit_def)

lemma tracker_ok_exampleStart: "tracker_ok exampleStart"
  unfolding exampleStart_def by (rule tracker_ok_constructor)

lemma trackSequence_baseline:
  assumes "tracker_ok t"
  shows "lastIndex (trackSequence m t) (sysid m) (compid m) = uint (seq m)"
proof -
  have "lastIndex (trackSequence m t) =
         (lastIndex t)(sysid m := (lastIndex t (sysid m))(compid m := uint (seq m)))"
    using assms by (intro trackSequence_range) (simp_all add: tracker_ok_def)
  then show ?thesis by simp
qed

subsection \<open>Reporting the loss ratio\<close>

lemma c_rem_64: "c_rem a 64 = 0 \<longleftrightarrow> 64 dvd a"
proof -
  have "c_rem a 64 = 0 \<longleftrightarrow> a = 0 \<or> \<bar>a\<bar> mod 64 = 0"
    by (auto simp: c_rem_def sgn_if)
  also have "\<dots> \<longleftrightarrow> \<bar>a\<bar> mod 64 = 0" by auto
  also have "\<dots> \<longleftrightarrow> 64 dvd \<bar>a\<bar>" by (simp add: dvd_eq_mod_eq_0)
  also have "\<dots> \<longleftrightarrow> 64 dvd a" by simp
  finally show ?thesis .
qed

lemma new_effects_append: "emitted s' = emitted s @ es \<Longrightarrow> new_effects s s' = es"
  by (simp add: new_effects_def)

lemma trackSequence_same:
  "emitted (trackSequence m s) = emitted s"
  "totalReceiveCounter (trackSequence m s) = totalReceiveCounter s"
  "currReceiveCounter (trackSequence m s) = currReceiveCounter s"
  "versionMismatchIgnore (trackSequence m s) = versionMismatchIgnore s"
  "uasManager (trackSequence m s) = uasManager s"
  "mavlink_status (trackSequence m s) = mavlink_status s"
  "totalLossCounter s \<le> totalLossCounter (trackSequence m s)"
proof -
  obtain k L where k: "0 \<le> k" and
    sh: "trackSequence m s = s\<lparr>lastIndex := L,
          totalLossCounter := totalLossCounter s + k,
          currLossCounter := currLossCounter s + k\<rparr>"
    using trackSequence_shape[of m s] by blast
  show "emitted (trackSequence m s) = emitted s"
    "totalReceiveCounter (trackSequence m s) = totalReceiveCounter s"
    "currReceiveCounter (trackSequence m s) = currReceiveCounter s"
    "versionMismatchIgnore (trackSequence m s) = versionMismatchIgnore s"
    "uasManager (trackSequence m s) = uasManager s"
    "mavlink_status (trackSequence m s) = mavlink_status s"
    "totalLossCounter s \<le> totalLossCounter (trackSequence m s)"
    using k unfolding sh by simp_all
qed

lemma countAndEmit_report:
  assumes "totalLossCounter (trackSequence m (countReceived s)) \<noteq> totalLossCounter s
           \<or> 64 dvd totalReceiveCounter s + 1"
  shows "countAndEmit link m (Some u) s =
           (trackSequence m (countReceived s))
             \<lparr>currLossCounter := 0, currReceiveCounter := 0,
              emitted := emitted s @
                [receiveLossChanged (sysid m) (receiveLoss (trackSequence m (countReceived s))),
                 messageReceived link m]\<rparr>"
proof -
  let ?t = "trackSequence m (countReceived s)"
  have tr: "totalReceiveCounter ?t = totalReceiveCounter s + 1"
    by (simp add: trackSequence_same countReceived_def)
  have e: "emitted ?t = emitted s" by (simp add: trackSequence_same countReceived_def)
  have "totalLossCounter s \<noteq> totalLossCounter ?t \<or> c_rem (totalReceiveCounter ?t) 64 = 0"
    using assms unfolding c_rem_64 tr by auto
  then have "reportLoss m (totalLossCounter s) ?t =
     emit (receiveLossChanged (sysid m) (receiveLoss ?t))
             (?t\<lparr>currLossCounter := 0, currReceiveCounter := 0\<rparr>)"
    by (simp only: reportLoss_def if_True)
  then show ?thesis
    unfolding countAndEmit_Some by (simp add: emit_def e)
qed

lemma countAndEmit_no_report:
  assumes "\<not> (totalLossCounter (trackSequence m (countReceived s)) \<noteq> totalLossCounter s
           \<or> 64 dvd totalReceiveCounter s + 1)"
  shows "countAndEmit link m (Some u) s =
           (trackSequence m (countReceived s))
             \<lparr>emitted := emitted s @ [messageReceived link m]\<rparr>"
proof -
  let ?t = "trackSequence m (countReceived s)"
  have tr: "totalReceiveCounter ?t = totalReceiveCounter s + 1"
    by (simp add: trackSequence_same countReceived_def)
  have e: "emitted ?t = emitted s" by (simp add: trackSequence_same countReceived_def)
  have "\<not> (totalLossCounter s \<noteq> totalLossCounter ?t \<or> c_rem (totalReceiveCounter ?t) 64 = 0)"
    using assms unfolding c_rem_64 tr by auto
  then have "reportLoss m (totalLossCounter s) ?t = ?t"
    by (simp only: reportLoss_def if_False)
  then show ?thesis
    unfolding countAndEmit_Some by (simp add: emit_def e)
qed

subsection \<open>The lifetime counters only grow\<close>

lemma countAndEmit_totals:
  "totalReceiveCounter s \<le> totalReceiveCounter (countAndEmit link m uas s)
   \<and> totalLossCounter s \<le> totalLossCounter (countAndEmit link m uas s)"
proof (cases uas)
  case None
  then show ?thesis by (simp add: countAndEmit_None)
next
  case (Some u)
  have "totalLossCounter (countReceived s) \<le> totalLossCounter (trackSequence m (countReceived s))"
    by (rule trackSequence_same)
  then have "totalLossCounter s \<le> totalLossCounter (trackSequence m (countReceived s))"
    by (simp add: countReceived_def)
  then show ?thesis using Some
    by (simp add: countAndEmit_totalReceive countAndEmit_totalLoss)
qed

lemma quiet_totals:
  "quiet_step s s' \<Longrightarrow>
   totalReceiveCounter s' = totalReceiveCounter s \<and> totalLossCounter s' = totalLossCounter s"
  by (simp add: quiet_step_def)

lemma admitMessage_totals:
  "totalReceiveCounter s \<le> totalReceiveCounter (admitMessage E link m s)
   \<and> totalLossCounter s \<le> totalLossCounter (admitMessage E link m s)"
proof -
  have c: "totalReceiveCounter s \<le> totalReceiveCounter (countAndEmit link m uas t)
   \<and> totalLossCounter s \<le> totalLossCounter (countAndEmit link m uas t)"
    if "totalReceiveCounter t = totalReceiveCounter s" "totalLossCounter t = totalLossCounter s"
    for uas :: "'c option" and t :: "('a, 'b) protocol"
    using countAndEmit_totals[of t link m uas] that by simp
  show ?thesis
    unfolding admitMessage_def Let_def
    by (auto simp: checkSystemId_def emit_def c split: prod.splits)
qed

lemma handleMessage_totals:
  "totalReceiveCounter s \<le> totalReceiveCounter (handleMessage E link time buf m s)
   \<and> totalLossCounter s \<le> totalLossCounter (handleMessage E link time buf m s)"
  using admitMessage_totals[of "logMessage E time buf m s" E link m]
    quiet_totals[OF quiet_logMessage[of s E time buf m]]
  by (simp add: handleMessage_def)

lemma perform_totals:
  "totalReceiveCounter s \<le> totalReceiveCounter (perform E c s)
   \<and> totalLossCounter s \<le> totalLossCounter (perform E c s)"
proof (cases c)
  case (ReceiveBytes link clock stack b)
  let ?P = "\<lambda>t. totalReceiveCounter s \<le> totalReceiveCounter t
                 \<and> totalLossCounter s \<le> totalLossCounter t"
  have "?P (receiveLoop E link clock stack 0 b s)"
  proof (rule receiveLoop_invariant[where P = ?P])
    show "?P s" by simp
  next
    fix t :: "('a, 'b) protocol" and p
    assume "?P t" then show "?P (t\<lparr>mavlink_status := p\<rparr>)" by simp
  next
    fix t :: "('a, 'b) protocol" and time buf m
    assume "?P t"
    then show "?P (handleMessage E link time buf m t)"
      using handleMessage_totals[of t E link time buf m] by linarith
  qed
  then show ?thesis using ReceiveBytes by (simp add: receiveBytes_def)
qed (simp_all add: quiet_totals[OF quiet_enableLogging] quiet_totals[OF quiet_setLogfileName]
      quiet_totals[OF quiet_enableVersionCheck] quiet_totals[OF quiet_enableHeartbeats]
      quiet_totals[OF quiet_setSystemId] quiet_totals[OF quiet_loadSettings])

subsection \<open>The four ways through lines 188-301\<close>

lemma admitMessage_known:
  "getUASForId E (uasManager s) (sysid m) = Some u \<Longrightarrow>
   admitMessage E link m s = countAndEmit link m (Some u) s"
  by (simp add: admitMessage_def)

lemma admitMessage_dropped:
  "getUASForId E (uasManager s) (sysid m) = None \<Longrightarrow> msgid m \<noteq> MAVLINK_MSG_ID_HEARTBEAT E \<Longrightarrow>
   admitMessage E link m s = s"
  by (simp add: admitMessage_def countAndEmit_None)

lemma checkSystemId_fields:
  "m_enable_version_check (checkSystemId m s) = m_enable_version_check s"
  "versionMismatchIgnore (checkSystemId m s) = versionMismatchIgnore s"
  "uasManager (checkSystemId m s) = uasManager s"
  by (simp_all add: checkSystemId_def emit_def)

lemma admitMessage_mismatch:
  assumes "getUASForId E (uasManager s) (sysid m) = None"
      and "msgid m = MAVLINK_MSG_ID_HEARTBEAT E"
      and "m_enable_version_check s"
      and "mavlink_version (mavlink_msg_heartbeat_decode E m) \<noteq> MAVLINK_VERSION E"
  shows "admitMessage E link m s =
           (if \<not> versionMismatchIgnore s
            then (emit (protocolStatusMessage
                          (VersionMismatch (sysid m)
                             (mavlink_version (mavlink_msg_heartbeat_decode E m))
                             (MAVLINK_VERSION E)))
                    (checkSystemId m s))\<lparr>versionMismatchIgnore := True\<rparr>
            else checkSystemId m s)"
  using assms by (simp add: admitMessage_def Let_def checkSystemId_fields)

lemma admitMessage_create:
  assumes "getUASForId E (uasManager s) (sysid m) = None"
      and "msgid m = MAVLINK_MSG_ID_HEARTBEAT E"
      and "\<not> (m_enable_version_check s
              \<and> mavlink_version (mavlink_msg_heartbeat_decode E m) \<noteq> MAVLINK_VERSION E)"
  shows "admitMessage E link m s =
           countAndEmit link m
             (fst (createUAS E link (sysid m) (mavlink_msg_heartbeat_decode E m) (uasManager s)))
             ((emit (createUAS_called link (sysid m) (mavlink_msg_heartbeat_decode E m))
                 (checkSystemId m s))
                \<lparr>uasManager :=
                   snd (createUAS E link (sysid m) (mavlink_msg_heartbeat_decode E m)
                          (uasManager s))\<rparr>)"
  using assms by (auto simp: admitMessage_def Let_def checkSystemId_fields split: prod.splits)

lemma logMessage_fields:
  "uasManager (logMessage E time buf m s) = uasManager s"
  "m_enable_version_check (logMessage E time buf m s) = m_enable_version_check s"
  "versionMismatchIgnore (logMessage E time buf m s) = versionMismatchIgnore s"
  "systemId (logMessage E time buf m s) = systemId s"
  "totalReceiveCounter (logMessage E time buf m s) = totalReceiveCounter s"
  "totalLossCounter (logMessage E time buf m s) = totalLossCounter s"
  "currReceiveCounter (logMessage E time buf m s) = currReceiveCounter s"
  "currLossCounter (logMessage E time buf m s) = currLossCounter s"
  "lastIndex (logMessage E time buf m s) = lastIndex s"
  "mavlink_status (logMessage E time buf m s) = mavlink_status s"
  "m_heartbeatsEnabled (logMessage E time buf m s) = m_heartbeatsEnabled s"
  "heartbeatRate (logMessage E time buf m s) = heartbeatRate s"
proof -
  have q: "quiet_step s (logMessage E time buf m s)" by (rule quiet_logMessage)
  then show "uasManager (logMessage E time buf m s) = uasManager s"
    "versionMismatchIgnore (logMessage E time buf m s) = versionMismatchIgnore s"
    "totalReceiveCounter (logMessage E time buf m s) = totalReceiveCounter s"
    "totalLossCounter (logMessage E time buf m s) = totalLossCounter s"
    "currReceiveCounter (logMessage E time buf m s) = currReceiveCounter s"
    "currLossCounter (logMessage E time buf m s) = currLossCounter s"
    "lastIndex (logMessage E time buf m s) = lastIndex s"
    "mavlink_status (logMessage E time buf m s) = mavlink_status s"
    by (simp_all add: quiet_step_def)
  show "m_enable_version_check (logMessage E time buf m s) = m_enable_version_check s"
    "systemId (logMessage E time buf m s) = systemId s"
    "m_heartbeatsEnabled (logMessage E time buf m s) = m_heartbeatsEnabled s"
    "heartbeatRate (logMessage E time buf m s) = heartbeatRate s"
    by (auto simp: logMessage_def QFile_write_def enableLogging_def closeLogfile_def
        emit_def Let_def split: option.splits)
qed

text \<open>What the logging block emits: nothing, or the failure and the change of the flag.\<close>

lemma logMessage_emitted:
  "\<exists>es. emitted (logMessage E time buf m s) = emitted s @ es \<and>
     (es = [] \<or> (\<exists>f. m_logfile s = Some f \<and> m_loggingEnabled s \<and>
                   es = [protocolStatusMessage (LoggingFailed (fileName f)),
                         loggingChanged False]))"
  by (auto simp: logMessage_def QFile_write_def enableLogging_def closeLogfile_def
      emit_def Let_def split: option.splits)

lemma logMessage_off:
  "m_logfile s = None \<or> \<not> m_loggingEnabled s \<Longrightarrow> logMessage E time buf m s = s"
  by (auto simp: logMessage_def split: option.splits)

subsection \<open>What a message emits\<close>

lemma countAndEmit_emitted:
  "\<exists>R. emitted (countAndEmit link m (Some u) s) = emitted s @ R @ [messageReceived link m]
       \<and> (R = [] \<or> (\<exists>x. R = [receiveLossChanged (sysid m) x]))"
proof (cases "totalLossCounter (trackSequence m (countReceived s)) \<noteq> totalLossCounter s
           \<or> 64 dvd totalReceiveCounter s + 1")
  case True
  from countAndEmit_report[OF True, of link u] show ?thesis by simp
next
  case False
  from countAndEmit_no_report[OF False, of link u] show ?thesis by simp
qed

lemma countAndEmit_fields:
  "versionMismatchIgnore (countAndEmit link m uas s) = versionMismatchIgnore s"
  "uasManager (countAndEmit link m uas s) = uasManager s"
  "mavlink_status (countAndEmit link m uas s) = mavlink_status s"
proof -
  have "versionMismatchIgnore (countAndEmit link m uas s) = versionMismatchIgnore s
    \<and> uasManager (countAndEmit link m uas s) = uasManager s
    \<and> mavlink_status (countAndEmit link m uas s) = mavlink_status s"
  proof (cases uas)
    case None
    then show ?thesis by (simp add: countAndEmit_None)
  next
    case (Some u)
    show ?thesis unfolding Some countAndEmit_Some
      by (simp add: emit_def reportLoss_def trackSequence_same countReceived_def)
  qed
  then show "versionMismatchIgnore (countAndEmit link m uas s) = versionMismatchIgnore s"
    "uasManager (countAndEmit link m uas s) = uasManager s"
    "mavlink_status (countAndEmit link m uas s) = mavlink_status s"
    by simp_all
qed

lemma checkSystemId_emitted:
  "\<exists>C. emitted (checkSystemId m s) = emitted s @ C
       \<and> (C = [] \<or> C = [protocolStatusMessage (SystemIdConflict (systemId s))])"
  by (simp add: checkSystemId_def emit_def)

subsection \<open>The latch of the version warning\<close>

lemma versionWarnings_simps [simp]:
  "versionWarnings [] = 0"
  "versionWarnings (es @ fs) = versionWarnings es + versionWarnings fs"
  "versionWarnings (e # es) = (if is_version_warning e then 1 else 0) + versionWarnings es"
  by (simp_all add: versionWarnings_def)












lemma checkSystemId_counters:
  "totalReceiveCounter (checkSystemId m s) = totalReceiveCounter s"
  "totalLossCounter (checkSystemId m s) = totalLossCounter s"
  "currReceiveCounter (checkSystemId m s) = currReceiveCounter s"
  "currLossCounter (checkSystemId m s) = currLossCounter s"
  "lastIndex (checkSystemId m s) = lastIndex s"
  by (simp_all add: checkSystemId_def emit_def)

text \<open>The version gate closes: lines 217-229 with a mismatch.\<close>

lemma handleMessage_mismatch:
  assumes "getUASForId E (uasManager s) (sysid m) = None"
      and "msgid m = MAVLINK_MSG_ID_HEARTBEAT E"
      and "m_enable_version_check s"
      and "mavlink_version (mavlink_msg_heartbeat_decode E m) \<noteq> MAVLINK_VERSION E"
  shows "\<exists>es. new_effects s (handleMessage E link time buf m s) =
            es @ (if versionMismatchIgnore s then []
                  else [protocolStatusMessage
                          (VersionMismatch (sysid m)
                             (mavlink_version (mavlink_msg_heartbeat_decode E m))
                             (MAVLINK_VERSION E))])
          \<and> list_all (\<lambda>e. is_warning e \<and> \<not> is_version_warning e \<or> e = loggingChanged False) es"
    and "versionMismatchIgnore (handleMessage E link time buf m s)"
    and "uasManager (handleMessage E link time buf m s) = uasManager s"
    and "totalReceiveCounter (handleMessage E link time buf m s) = totalReceiveCounter s"
    and "totalLossCounter (handleMessage E link time buf m s) = totalLossCounter s"
    and "currReceiveCounter (handleMessage E link time buf m s) = currReceiveCounter s"
    and "currLossCounter (handleMessage E link time buf m s) = currLossCounter s"
    and "lastIndex (handleMessage E link time buf m s) = lastIndex s"
proof -
  let ?s0 = "logMessage E time buf m s"
  let ?c = "checkSystemId m ?s0"
  let ?w = "protocolStatusMessage
              (VersionMismatch (sysid m) (mavlink_version (mavlink_msg_heartbeat_decode E m))
                 (MAVLINK_VERSION E))"
  have eq: "handleMessage E link time buf m s =
              (if \<not> versionMismatchIgnore s
               then (emit ?w ?c)\<lparr>versionMismatchIgnore := True\<rparr> else ?c)"
    unfolding handleMessage_def
    using admitMessage_mismatch[of E ?s0 m link] assms
    by (simp add: logMessage_fields)
  obtain esl where esl: "emitted ?s0 = emitted s @ esl"
    "esl = [] \<or> (\<exists>n. esl = [protocolStatusMessage (LoggingFailed n),
                         loggingChanged False])"
    using logMessage_emitted[of E time buf m s] by blast
  obtain C where C: "emitted ?c = emitted ?s0 @ C"
    "C = [] \<or> C = [protocolStatusMessage (SystemIdConflict (systemId ?s0))]"
    using checkSystemId_emitted[of m ?s0] by blast
  have "new_effects s (handleMessage E link time buf m s) =
          (esl @ C) @ (if versionMismatchIgnore s then [] else [?w])"
    unfolding eq by (simp add: new_effects_def emit_def esl C)
  moreover have "list_all (\<lambda>e. is_warning e \<and> \<not> is_version_warning e \<or> e = loggingChanged False)
                   (esl @ C)"
    using esl(2) C(2) by auto
  ultimately show "\<exists>es. new_effects s (handleMessage E link time buf m s) =
            es @ (if versionMismatchIgnore s then [] else [?w])
          \<and> list_all (\<lambda>e. is_warning e \<and> \<not> is_version_warning e \<or> e = loggingChanged False) es"
    by blast
  show "versionMismatchIgnore (handleMessage E link time buf m s)"
    unfolding eq by (simp add: emit_def checkSystemId_fields logMessage_fields)
  show "uasManager (handleMessage E link time buf m s) = uasManager s"
    unfolding eq by (simp add: emit_def checkSystemId_fields logMessage_fields)
  show "totalReceiveCounter (handleMessage E link time buf m s) = totalReceiveCounter s"
    "totalLossCounter (handleMessage E link time buf m s) = totalLossCounter s"
    "currReceiveCounter (handleMessage E link time buf m s) = currReceiveCounter s"
    "currLossCounter (handleMessage E link time buf m s) = currLossCounter s"
    "lastIndex (handleMessage E link time buf m s) = lastIndex s"
    unfolding eq by (simp_all add: emit_def checkSystemId_counters logMessage_fields)
qed

lemma set_no_dispatch: "\<not> list_ex is_dispatch es \<Longrightarrow> messageReceived l m \<notin> set es"
  by (auto simp: list_ex_iff)

lemma exampleLogging_eq:
  "qfile_open E ''log'' \<Longrightarrow> MAVLINK_HEARTBEAT_DEFAULT_RATE E = 1 \<Longrightarrow> defaultSystemId E = 255 \<Longrightarrow>
   exampleLogging E =
     \<lparr>heartbeatRate = 1, m_heartbeatsEnabled = False, m_loggingEnabled = True,
      m_logfile = Some \<lparr>fileName = ''log'', isOpen = True\<rparr>,
      m_enable_version_check = True, versionMismatchIgnore = False,
      systemId = 255, totalReceiveCounter = 0, totalLossCounter = 0,
      currReceiveCounter = 0, currLossCounter = 0, lastIndex = (\<lambda>i j. - 1),
      mavlink_status = [], uasManager = [], disk = (\<lambda>name. []),
      emitted = [heartbeatChanged False, versionCheckChanged True, versionCheckChanged True,
                 loggingChanged True]\<rparr>"
  by (simp add: exampleLogging_def MAVLinkProtocol_def loadSettings_def noSettings_def
      enableHeartbeats_def enableVersionCheck_def enableLogging_def setLogfileName_def
      closeLogfile_def emit_def Let_def)

lemma trackSequence_disk: "disk (trackSequence m s) = disk s"
proof -
  obtain k L where
    sh: "trackSequence m s = s\<lparr>lastIndex := L,
          totalLossCounter := totalLossCounter s + k,
          currLossCounter := currLossCounter s + k\<rparr>"
    using trackSequence_shape[of m s] by blast
  show ?thesis unfolding sh by simp
qed

lemma countAndEmit_disk: "disk (countAndEmit link m uas s) = disk s"
proof (cases uas)
  case None
  then show ?thesis by (simp add: countAndEmit_None)
next
  case (Some u)
  show ?thesis unfolding Some countAndEmit_Some
    by (simp add: emit_def reportLoss_def trackSequence_disk countReceived_def)
qed

lemma admitMessage_disk: "disk (admitMessage E link m s) = disk s"
  by (auto simp: admitMessage_def Let_def checkSystemId_def emit_def countAndEmit_disk
      split: prod.splits)

lemma log_effect_kinds:
  "is_warning e \<and> \<not> is_version_warning e \<or> e = loggingChanged False \<Longrightarrow>
   \<not> is_create e \<and> \<not> is_dispatch e \<and> \<not> is_loss_report e"
  by (cases e) auto

lemma exampleFullDisk_fields:
  "qfile_open exampleFullDisk ''log''"
  "MAVLINK_HEARTBEAT_DEFAULT_RATE exampleFullDisk = 1"
  "defaultSystemId exampleFullDisk = 255"
  "MAVLINK_MAX_PACKET_LEN exampleFullDisk = 263"
  "MAVLINK_MSG_ID_HEARTBEAT exampleFullDisk = 0"
  "qfile_write exampleFullDisk n old b = 0"
  "getUASForId exampleFullDisk r i = (if i \<in> set r then Some i else None)"
  by (simp_all add: exampleFullDisk_def exampleE_def)

subsection \<open>The log record\<close>

lemma length_timeBytes: "length (timeBytes t) = 8"
  by (simp add: timeBytes_def)

lemma timeBytes_digit:
  assumes "i < 8"
  shows "unat (timeBytes t ! i) = (unat t div 256 ^ i) mod 256"
proof -
  have "timeBytes t ! i = ucast (drop_bit (8 * i) t)"
    using assms by (simp add: timeBytes_def)
  moreover have "unat (ucast (drop_bit (8 * i) t) :: 8 word) = unat (drop_bit (8 * i) t) mod 256"
    by (simp add: unsigned_ucast_eq take_bit_eq_mod)
  moreover have "unat (drop_bit (8 * i) t) = unat t div 2 ^ (8 * i)"
    unfolding unat_drop_bit_eq by (simp add: drop_bit_eq_div)
  moreover have "(2::nat) ^ (8 * i) = 256 ^ i"
    by (simp add: power_mult)
  ultimately show ?thesis by simp
qed

lemma length_logRecord: "length (logRecord E time buf m) = MAVLINK_MAX_PACKET_LEN E + 8"
  by (simp add: logRecord_def writeAt_def Let_def length_timeBytes)

lemma logRecord_parts:
  assumes "length (mavlink_msg_to_send_buffer E m) \<le> MAVLINK_MAX_PACKET_LEN E"
  shows "logRecord E time buf m =
           timeBytes time @ mavlink_msg_to_send_buffer E m
             @ drop (8 + length (mavlink_msg_to_send_buffer E m))
                 (take (MAVLINK_MAX_PACKET_LEN E + 8)
                    (buf @ replicate (MAVLINK_MAX_PACKET_LEN E + 8) 0))"
proof -
  let ?len = "MAVLINK_MAX_PACKET_LEN E + 8"
  let ?f = "mavlink_msg_to_send_buffer E m"
  let ?b0 = "take ?len (buf @ replicate ?len 0)"
  have l0: "length ?b0 = ?len" by simp
  have b1: "writeAt 0 (timeBytes time) ?b0 = timeBytes time @ drop 8 ?b0"
    by (simp add: writeAt_def length_timeBytes)
  have b2: "writeAt 8 ?f (timeBytes time @ drop 8 ?b0)
              = timeBytes time @ ?f @ drop (8 + length ?f) ?b0"
    by (simp add: writeAt_def length_timeBytes add.commute)
  have "length (timeBytes time @ ?f @ drop (8 + length ?f) ?b0) = ?len"
    using assms by (simp add: length_timeBytes)
  then have "take ?len (timeBytes time @ ?f @ drop (8 + length ?f) ?b0)
               = timeBytes time @ ?f @ drop (8 + length ?f) ?b0"
    by (simp only: take_all order_refl)
  then show ?thesis
    unfolding logRecord_def Let_def b1 b2 .
qed

lemma logMessage_complete:
  assumes "m_logfile s = Some f" and "m_loggingEnabled s" and "isOpen f"
      and "qfile_write E (fileName f) (disk s (fileName f)) (logRecord E time buf m)
             = int (MAVLINK_MAX_PACKET_LEN E + 8)"
      and "MAVLINK_MAX_PACKET_LEN E + 8 < 2 ^ 64"
  shows "logMessage E time buf m s =
           s\<lparr>disk := (disk s)(fileName f := disk s (fileName f) @ logRecord E time buf m)\<rparr>"
proof -
  let ?len = "MAVLINK_MAX_PACKET_LEN E + 8"
  have "int ?len < int (2 ^ 64)" using assms(5) by (simp only: of_nat_less_iff)
  then have "int ?len < 2 ^ 64" by simp
  moreover have "0 \<le> int ?len" by simp
  ultimately have "int ?len mod 2 ^ 64 = int ?len" by (rule mod_pos_pos_trivial[rotated])
  then have ns: "\<not> shortWrite (int ?len) ?len" by (simp add: shortWrite_def)
  have w: "QFile_write E f (logRecord E time buf m) s =
      (int ?len, s\<lparr>disk := (disk s)(fileName f := disk s (fileName f) @ logRecord E time buf m)\<rparr>)"
    using assms(3,4) by (simp add: QFile_write_def Let_def length_logRecord)
  show ?thesis
    using assms(1,2) ns by (simp add: logMessage_def w)
qed

lemma handleMessage_disk:
  "disk (handleMessage E link time buf m s) = disk (logMessage E time buf m s)"
  by (simp add: handleMessage_def admitMessage_disk)

lemma exampleE_fields:
  "qfile_open exampleE ''log''"
  "MAVLINK_HEARTBEAT_DEFAULT_RATE exampleE = 1"
  "defaultSystemId exampleE = 255"
  "MAVLINK_MAX_PACKET_LEN exampleE = 263"
  "qfile_write exampleE n old b = int (length b)"
  "mavlink_msg_to_send_buffer exampleE (exampleData q) = [0x55, 1, q, 7, 1, 30, 9, 0, 0]"
  by (simp_all add: exampleE_def exampleData_def)

lemma exampleLogging_write:
  "disk (handleMessage exampleE exampleLink t buf (exampleData q) (exampleLogging exampleE)) ''log''
     = logRecord exampleE t buf (exampleData q)"
proof -
  let ?s = "exampleLogging exampleE"
  have s: "m_logfile ?s = Some \<lparr>fileName = ''log'', isOpen = True\<rparr>" "m_loggingEnabled ?s"
    "disk ?s ''log'' = []"
    by (simp_all add: exampleLogging_eq exampleE_fields)
  have w: "qfile_write exampleE (fileName \<lparr>fileName = ''log'', isOpen = True\<rparr>)
             (disk ?s (fileName \<lparr>fileName = ''log'', isOpen = True\<rparr>))
             (logRecord exampleE t buf (exampleData q))
             = int (MAVLINK_MAX_PACKET_LEN exampleE + 8)"
    by (simp add: exampleE_fields length_logRecord)
  have "MAVLINK_MAX_PACKET_LEN exampleE + 8 < 2 ^ 64" by (simp add: exampleE_fields)
  from logMessage_complete[OF s(1,2) _ w this]
  show ?thesis unfolding handleMessage_disk by (simp add: s(3))
qed

subsection \<open>The loss ratio in floating point\<close>

lemma to_double_of_int:
  "\<bar>n\<bar> < 2 ^ 53 \<Longrightarrow> to_double (real_of_int n) = real_of_int n"
  unfolding to_double_def by (rule ieee_round_of_int) simp_all

lemma to_double_pos: "0 < x \<Longrightarrow> 0 < to_double x"
  unfolding to_double_def by (rule ieee_round_pos) simp_all

lemma to_double_zero: "to_double 0 = 0"
  by (simp add: to_double_def ieee_round_def)

lemma receiveLoss_defined:
  assumes "1 \<le> currReceiveCounter s + currLossCounter s"
  shows "receiveLoss s =
           Finite (to_float (to_float (to_double
              (to_double (real_of_int (currLossCounter s))
                 / to_double (real_of_int (currReceiveCounter s + currLossCounter s)))) * 100))"
proof -
  have "0 < real_of_int (currReceiveCounter s + currLossCounter s)" using assms by simp
  then have "0 < to_double (real_of_int (currReceiveCounter s + currLossCounter s))"
    by (rule to_double_pos)
  then show ?thesis by (simp add: receiveLoss_def Let_def)
qed

lemma receiveLoss_undefined:
  "currReceiveCounter s + currLossCounter s = 0 \<Longrightarrow> receiveLoss s = NotFinite"
  by (simp add: receiveLoss_def Let_def to_double_zero)

lemma ratio_error:
  assumes "0 \<le> q"
  shows "\<bar>to_float (to_float (to_double q) * 100) - q * 100\<bar> \<le> q * 100 / 2 ^ 22"
proof -
  let ?a = "to_double q"
  let ?b = "to_float ?a"
  let ?c = "to_float (?b * 100)"
  have ea: "\<bar>?a - q\<bar> \<le> q / 2 ^ 53"
    using ieee_round_error[of 53 q] assms by (simp add: to_double_def)
  have eb: "\<bar>?b - ?a\<bar> \<le> \<bar>?a\<bar> / 2 ^ 24"
    using ieee_round_error[of 24 ?a] by (simp add: to_float_def)
  have ec: "\<bar>?c - ?b * 100\<bar> \<le> \<bar>?b * 100\<bar> / 2 ^ 24"
    using ieee_round_error[of 24 "?b * 100"] by (simp add: to_float_def)
  have a: "\<bar>?a\<bar> \<le> 2 * q" using ea assms by (simp add: abs_if split: if_splits) 
  have b: "\<bar>?b\<bar> \<le> 2 * \<bar>?a\<bar>" using eb by (simp add: abs_if split: if_splits)
  show ?thesis using ea eb ec a b assms by (simp add: abs_if split: if_splits)
qed

lemma example_ratio_third:
  "to_float (to_float (to_double (to_double 1 / to_double 3)) * 100) = 4369067 / 131072"
  by code_simp

lemma example_ratio_80:
  "to_float (to_float (to_double (to_double 4 / to_double 5)) * 100) = 80"
  by code_simp

lemma exampleVehicle_eq:
  "exampleVehicle =
     \<lparr>heartbeatRate = 1, m_heartbeatsEnabled = False, m_loggingEnabled = False,
      m_logfile = None, m_enable_version_check = True, versionMismatchIgnore = False,
      systemId = 255, totalReceiveCounter = 1, totalLossCounter = 0,
      currReceiveCounter = 1, currLossCounter = 0,
      lastIndex = (\<lambda>i j. - 1)(7 := (\<lambda>j. - 1)(1 := 0)),
      mavlink_status = [], uasManager = [7], disk = (\<lambda>name. []),
      emitted = [heartbeatChanged False, versionCheckChanged True, versionCheckChanged True,
                 createUAS_called exampleLink 7 \<lparr>hb_type = 1, autopilot = 0, mavlink_version = 2\<rparr>,
                 messageReceived exampleLink (exampleHeartbeat 0)]\<rparr>"
  by (simp add: exampleVehicle_def handleMessage_def logMessage_def admitMessage_def
      checkSystemId_def countAndEmit_def countReceived_def trackSequence_def
      setLastIndex_def reportLoss_def c_rem_def emit_def Let_def
      exampleE_def exampleStart_eq exampleHeartbeat_def examplePayload_def)

lemma exampleVehicle_data:
  "handleMessage exampleE exampleLink time buf (exampleData q) exampleVehicle
     = countAndEmit exampleLink (exampleData q) (Some (7::8 word)) exampleVehicle"
proof -
  have "logMessage exampleE time buf (exampleData q) exampleVehicle = exampleVehicle"
    by (rule logMessage_off) (simp add: exampleVehicle_eq)
  moreover have "getUASForId exampleE (uasManager exampleVehicle) (sysid (exampleData q)) = Some 7"
    by (simp add: exampleVehicle_eq exampleE_def exampleData_def)
  ultimately show ?thesis
    by (simp add: handleMessage_def admitMessage_known)
qed

lemma exampleVehicle_gap:
  "trackSequence (exampleData 2) (countReceived exampleVehicle) =
     (setLastIndex 7 1 2 (countReceived exampleVehicle))
       \<lparr>totalLossCounter := 1, currLossCounter := 1\<rparr>"
proof -
  have h: "lastIndex (countReceived exampleVehicle) (sysid (exampleData 2)) (compid (exampleData 2))
             = uint (0::8 word)"
    by (simp add: exampleVehicle_eq exampleData_def countReceived_def)
  show ?thesis
    using trackSequence_next[OF h]
    by (simp add: exampleData_def exampleVehicle_eq countReceived_def setLastIndex_def)
qed

lemma exampleVehicle_report:
  "new_effects exampleVehicle
     (handleMessage exampleE exampleLink time buf (exampleData 2) exampleVehicle)
     = [receiveLossChanged 7 (Finite (4369067 / 131072)),
        messageReceived exampleLink (exampleData 2)]"
    "currLossCounter (trackSequence (exampleData 2) (countReceived exampleVehicle)) = 1"
    "currReceiveCounter (trackSequence (exampleData 2) (countReceived exampleVehicle)) = 2"
proof -
  let ?t = "trackSequence (exampleData 2) (countReceived exampleVehicle)"
  show l: "currLossCounter ?t = 1" and r: "currReceiveCounter ?t = 2"
    unfolding exampleVehicle_gap
    by (simp_all add: setLastIndex_def countReceived_def exampleVehicle_eq)
  have "1 \<le> currReceiveCounter ?t + currLossCounter ?t" unfolding l r by simp
  from receiveLoss_defined[OF this]
  have v: "receiveLoss ?t = Finite (4369067 / 131072)"
    unfolding l r by (simp add: example_ratio_third)
  have "totalLossCounter ?t \<noteq> totalLossCounter exampleVehicle
           \<or> 64 dvd totalReceiveCounter exampleVehicle + 1"
    unfolding exampleVehicle_gap by (simp add: exampleVehicle_eq)
  from countAndEmit_report[OF this, of exampleLink "7::8 word"]
  have "new_effects exampleVehicle
     (countAndEmit exampleLink (exampleData 2) (Some (7::8 word)) exampleVehicle)
     = [receiveLossChanged 7 (Finite (4369067 / 131072)),
        messageReceived exampleLink (exampleData 2)]"
    unfolding v by (simp add: new_effects_def exampleData_def)
  then show "new_effects exampleVehicle
     (handleMessage exampleE exampleLink time buf (exampleData 2) exampleVehicle)
     = [receiveLossChanged 7 (Finite (4369067 / 131072)),
        messageReceived exampleLink (exampleData 2)]"
    unfolding exampleVehicle_data .
qed

subsection \<open>No loss ratio is undefined\<close>

lemma defined_step_refl: "defined_step s s"
  by (simp add: defined_step_def)

lemma defined_step_trans: "defined_step s t \<Longrightarrow> defined_step t u \<Longrightarrow> defined_step s u"
  by (auto simp: defined_step_def)

lemma quiet_defined:
  "list_all (\<lambda>e. \<not> is_dispatch e \<and> \<not> is_create e \<and> \<not> is_loss_report e \<and>
                       \<not> is_version_warning e) es \<Longrightarrow> \<not> list_ex is_undefined_report es"
proof (induction es)
  case Nil
  then show ?case by simp
next
  case (Cons e es)
  then have "\<not> is_loss_report e" by simp
  then have "\<not> is_undefined_report e" by (cases e) auto
  then show ?case using Cons by simp
qed

lemma quiet_defined_step: "quiet_step s s' \<Longrightarrow> defined_step s s'"
  by (auto simp: quiet_step_def defined_step_def quiet_defined)

lemma defined_step_emit: "\<not> is_undefined_report e \<Longrightarrow> defined_step s (emit e s)"
  by (simp add: defined_step_def emit_def)

lemma defined_step_countAndEmit:
  assumes "tracker_ok s"
  shows "defined_step s (countAndEmit link m uas s)"
proof (cases uas)
  case None
  then show ?thesis by (simp add: countAndEmit_None defined_step_refl)
next
  case (Some u)
  let ?t = "trackSequence m (countReceived s)"
  obtain k L where k: "0 \<le> k" and
    sh: "?t = (countReceived s)\<lparr>lastIndex := L,
          totalLossCounter := totalLossCounter (countReceived s) + k,
          currLossCounter := currLossCounter (countReceived s) + k\<rparr>"
    using trackSequence_shape[of m "countReceived s"] by blast
  have "1 \<le> currReceiveCounter ?t + currLossCounter ?t"
    using assms k unfolding sh by (simp add: countReceived_def tracker_ok_def)
  from receiveLoss_defined[OF this] obtain x where x: "receiveLoss ?t = Finite x" by blast
  show ?thesis
  proof (cases "totalLossCounter ?t \<noteq> totalLossCounter s \<or> 64 dvd totalReceiveCounter s + 1")
    case True
    from countAndEmit_report[OF True, of link u] show ?thesis
      unfolding Some x by (simp add: defined_step_def)
  next
    case False
    from countAndEmit_no_report[OF False, of link u] show ?thesis
      unfolding Some by (simp add: defined_step_def)
  qed
qed

lemma defined_step_admitMessage:
  assumes "tracker_ok s"
  shows "defined_step s (admitMessage E link m s)"
proof -
  let ?c = "checkSystemId m s"
  let ?hb = "mavlink_msg_heartbeat_decode E m"
  have c: "defined_step s ?c" by (simp add: defined_step_def checkSystemId_def emit_def)
  have w: "defined_step ?c ((emit (protocolStatusMessage
                          (VersionMismatch (sysid m) (mavlink_version ?hb) (MAVLINK_VERSION E)))
                    ?c)\<lparr>versionMismatchIgnore := True\<rparr>)"
    by (simp add: defined_step_def emit_def)
  have k: "defined_step ?c (countAndEmit link m uas
             ((emit (createUAS_called link (sysid m) ?hb) ?c)\<lparr>uasManager := r\<rparr>))"
    for uas :: "'c option" and r
  proof -
    let ?b = "(emit (createUAS_called link (sysid m) ?hb) ?c)\<lparr>uasManager := r\<rparr>"
    have "defined_step ?c ?b" by (simp add: defined_step_def emit_def)
    moreover have "tracker_ok ?b" using assms by (simp add: checkSystemId_def)
    ultimately show ?thesis
      by (rule defined_step_trans[OF _ defined_step_countAndEmit])
  qed
  show ?thesis
    unfolding admitMessage_def Let_def
    using c defined_step_trans[OF c w] defined_step_trans[OF c k]
      defined_step_countAndEmit[OF assms]
    by (auto split: prod.splits)
qed

lemma defined_step_handleMessage:
  assumes "tracker_ok s"
  shows "defined_step s (handleMessage E link time buf m s)"
proof -
  have "tracker_ok (logMessage E time buf m s)"
    using assms by (rule quiet_tracker_ok[OF quiet_logMessage])
  from defined_step_admitMessage[OF this]
  show ?thesis unfolding handleMessage_def
    by (rule defined_step_trans[OF quiet_defined_step[OF quiet_logMessage]])
qed

lemma defined_step_perform:
  assumes "tracker_ok s"
  shows "defined_step s (perform E c s)"
proof (cases c)
  case (ReceiveBytes link clock stack b)
  let ?P = "\<lambda>t. tracker_ok t \<and> defined_step s t"
  have "?P (receiveLoop E link clock stack 0 b s)"
  proof (rule receiveLoop_invariant[where P = ?P])
    show "?P s" using assms by (simp add: defined_step_refl)
  next
    fix t :: "('a, 'b) protocol" and p
    assume "?P t" then show "?P (t\<lparr>mavlink_status := p\<rparr>)"
      by (simp add: defined_step_def)
  next
    fix t :: "('a, 'b) protocol" and time buf m
    assume "?P t"
    then show "?P (handleMessage E link time buf m t)"
      using tracker_ok_handleMessage[of t E link time buf m]
        defined_step_trans[OF _ defined_step_handleMessage[of t E link time buf m]]
      by blast
  qed
  then show ?thesis using ReceiveBytes by (simp add: receiveBytes_def)
qed (simp_all add: quiet_defined_step quiet_enableLogging quiet_setLogfileName
      quiet_enableVersionCheck quiet_enableHeartbeats quiet_setSystemId quiet_loadSettings)

lemma defined_step_run:
  "tracker_ok s \<Longrightarrow> defined_step s (run E cs s)"
proof (induction cs arbitrary: s)
  case Nil
  then show ?case by (simp add: defined_step_refl)
next
  case (Cons c cs)
  have "tracker_ok (perform E c s)" using Cons.prems by (rule tracker_ok_perform)
  from defined_step_trans[OF defined_step_perform[OF Cons.prems] Cons.IH[OF this]]
  show ?case by simp
qed

lemma constructor_defined:
  "\<not> list_ex is_undefined_report (emitted (MAVLinkProtocol E st p r d))"
proof -
  let ?s0 = "\<lparr>heartbeatRate = MAVLINK_HEARTBEAT_DEFAULT_RATE E,
                m_heartbeatsEnabled = False,
                m_loggingEnabled = False,
                m_logfile = None,
                m_enable_version_check = True,
                versionMismatchIgnore = False,
                systemId = defaultSystemId E,
                totalReceiveCounter = 0,
                totalLossCounter = 0,
                currReceiveCounter = 0,
                currLossCounter = 0,
                lastIndex = (\<lambda>i j. - 1),
                mavlink_status = p,
                uasManager = r,
                disk = d,
                emitted = []\<rparr>"
  have "defined_step ?s0 (loadSettings E st ?s0)"
    by (rule quiet_defined_step[OF quiet_loadSettings])
  then have "\<not> list_ex is_undefined_report (emitted (loadSettings E st ?s0))"
    by (auto simp: defined_step_def)
  then show ?thesis
    by (simp add: MAVLinkProtocol_def Let_def emit_def)
qed

section \<open>The claims\<close>

text \<open>
  C1: a decoded message is emitted to the subscribers (\<open>messageReceived\<close>) only if a
  vehicle for its system id exists at that moment: the lookup in the registry returned a
  handle, or the message is a heartbeat from which \<open>createUAS\<close> made a vehicle
  earlier in the processing of this same message. The dispatch is the last thing the
  processing of the message emits, and it is the only dispatch; the creation precedes it.
\<close>

theorem dispatch_requires_vehicle:
  assumes "messageReceived l m' \<in> set (new_effects s (handleMessage E link time buf m s))"
  shows "l = link \<and> m' = m
       \<and> (\<exists>before.
            new_effects s (handleMessage E link time buf m s) = before @ [messageReceived link m]
            \<and> \<not> list_ex is_dispatch before
            \<and> (getUASForId E (uasManager s) (sysid m) \<noteq> None
               \<or> (msgid m = MAVLINK_MSG_ID_HEARTBEAT E
                  \<and> fst (createUAS E link (sysid m) (mavlink_msg_heartbeat_decode E m)
                           (uasManager s)) \<noteq> None
                  \<and> createUAS_called link (sysid m) (mavlink_msg_heartbeat_decode E m)
                      \<in> set before)))"
proof -
  let ?s0 = "logMessage E time buf m s"
  let ?s' = "handleMessage E link time buf m s"
  let ?hb = "mavlink_msg_heartbeat_decode E m"
  obtain esl where esl: "emitted ?s0 = emitted s @ esl"
    "esl = [] \<or> (\<exists>n. esl = [protocolStatusMessage (LoggingFailed n), loggingChanged False])"
    using logMessage_emitted[of E time buf m s] by blast
  have nl: "\<not> list_ex is_dispatch esl" using esl(2) by auto
  have um: "uasManager ?s0 = uasManager s" by (rule logMessage_fields)
  have s': "?s' = admitMessage E link m ?s0" by (simp add: handleMessage_def)
  have main: "\<exists>before.
            new_effects s ?s' = before @ [messageReceived link m]
            \<and> \<not> list_ex is_dispatch before
            \<and> (getUASForId E (uasManager s) (sysid m) \<noteq> None
               \<or> (msgid m = MAVLINK_MSG_ID_HEARTBEAT E
                  \<and> fst (createUAS E link (sysid m) ?hb (uasManager s)) \<noteq> None
                  \<and> createUAS_called link (sysid m) ?hb \<in> set before))"
  proof (cases "getUASForId E (uasManager s) (sysid m)")
    case (Some u)
    then have "?s' = countAndEmit link m (Some u) ?s0"
      unfolding s' using um by (intro admitMessage_known) simp
    moreover obtain R where "emitted (countAndEmit link m (Some u) ?s0)
        = emitted ?s0 @ R @ [messageReceived link m]"
      "R = [] \<or> (\<exists>x. R = [receiveLossChanged (sysid m) x])"
      using countAndEmit_emitted[of link m u ?s0] by blast
    ultimately have "new_effects s ?s' = (esl @ R) @ [messageReceived link m]"
      "\<not> list_ex is_dispatch (esl @ R)"
      using esl nl by (auto simp: new_effects_def)
    then show ?thesis using Some by blast
  next
    case None
    then have none: "getUASForId E (uasManager ?s0) (sysid m) = None" using um by simp
    show ?thesis
    proof (cases "msgid m = MAVLINK_MSG_ID_HEARTBEAT E")
      case False
      have "?s' = ?s0" unfolding s' using none False by (rule admitMessage_dropped)
      then have "new_effects s ?s' = esl" by (simp add: new_effects_def esl)
      then show ?thesis using assms set_no_dispatch[OF nl] by simp
    next
      case hb: True
      show ?thesis
      proof (cases "m_enable_version_check s
              \<and> mavlink_version ?hb \<noteq> MAVLINK_VERSION E")
        case True
        obtain es where es: "new_effects s ?s' =
            es @ (if versionMismatchIgnore s then []
                  else [protocolStatusMessage
                          (VersionMismatch (sysid m) (mavlink_version ?hb) (MAVLINK_VERSION E))])"
          "list_all (\<lambda>e. is_warning e \<and> \<not> is_version_warning e \<or> e = loggingChanged False) es"
          using handleMessage_mismatch(1)[OF None hb, of link time buf] True by blast
        have "messageReceived l m' \<notin> set es"
          using es(2) by (auto simp: list_all_iff)
        then show ?thesis using assms unfolding es(1) by (auto split: if_splits)
      next
        case False
        let ?c = "checkSystemId m ?s0"
        let ?cr = "createUAS E link (sysid m) ?hb (uasManager s)"
        let ?b = "(emit (createUAS_called link (sysid m) ?hb) ?c)\<lparr>uasManager := snd ?cr\<rparr>"
        have chk: "\<not> (m_enable_version_check ?s0
              \<and> mavlink_version ?hb \<noteq> MAVLINK_VERSION E)"
          using False by (simp add: logMessage_fields)
        have eq: "?s' = countAndEmit link m (fst ?cr) ?b"
          unfolding s' using admitMessage_create[OF none hb chk, of link] by (simp add: um)
        obtain C where C: "emitted ?c = emitted ?s0 @ C"
          "C = [] \<or> C = [protocolStatusMessage (SystemIdConflict (systemId ?s0))]"
          using checkSystemId_emitted[of m ?s0] by blast
        have eb: "emitted ?b = emitted s @ esl @ C @ [createUAS_called link (sysid m) ?hb]"
          by (simp add: emit_def C esl)
        have nc: "\<not> list_ex is_dispatch (esl @ C @ [createUAS_called link (sysid m) ?hb])"
          using nl C(2) by auto
        show ?thesis
        proof (cases "fst ?cr")
          case None
          then have "new_effects s ?s' = esl @ C @ [createUAS_called link (sysid m) ?hb]"
            unfolding eq by (simp add: countAndEmit_None new_effects_def eb)
          then show ?thesis using assms set_no_dispatch[OF nc] by simp
        next
          case (Some u)
          obtain R where R: "emitted (countAndEmit link m (Some u) ?b)
              = emitted ?b @ R @ [messageReceived link m]"
            "R = [] \<or> (\<exists>x. R = [receiveLossChanged (sysid m) x])"
            using countAndEmit_emitted[of link m u ?b] by blast
          have "emitted ?s' = emitted ?b @ R @ [messageReceived link m]"
            unfolding eq Some by (rule R(1))
          then have "new_effects s ?s' =
              (esl @ C @ [createUAS_called link (sysid m) ?hb] @ R) @ [messageReceived link m]"
            unfolding eb by (simp add: new_effects_def)
          moreover have "\<not> list_ex is_dispatch (esl @ C @ [createUAS_called link (sysid m) ?hb] @ R)"
            using nc R(2) by auto
          moreover have "createUAS_called link (sysid m) ?hb
              \<in> set (esl @ C @ [createUAS_called link (sysid m) ?hb] @ R)"
            by simp
          ultimately show ?thesis using hb Some by blast
        qed
      qed
    qed
  qed
  then obtain before where b: "new_effects s ?s' = before @ [messageReceived link m]"
    "\<not> list_ex is_dispatch before" by blast
  have "messageReceived l m' \<in> set (before @ [messageReceived link m])"
    using assms unfolding b(1) .
  then have "l = link \<and> m' = m" using set_no_dispatch[OF b(2), of l m'] by auto
  then show ?thesis using main by blast
qed

theorem dispatch_requires_vehicle_witness:
  "new_effects exampleStart
     (handleMessage exampleE exampleLink 0 [] (exampleHeartbeat 0) exampleStart)
   = [createUAS_called exampleLink 7 \<lparr>hb_type = 1, autopilot = 0, mavlink_version = 2\<rparr>,
      messageReceived exampleLink (exampleHeartbeat 0)]
   \<and> fst (createUAS exampleE exampleLink 7 \<lparr>hb_type = 1, autopilot = 0, mavlink_version = 2\<rparr> [])
       = Some 7"
proof -
  have e: "new_effects exampleStart
     (handleMessage exampleE exampleLink 0 [] (exampleHeartbeat 0) exampleStart)
   = [createUAS_called exampleLink 7 \<lparr>hb_type = 1, autopilot = 0, mavlink_version = 2\<rparr>,
      messageReceived exampleLink (exampleHeartbeat 0)]"
    by (simp add: new_effects_def handleMessage_def logMessage_def admitMessage_def
        checkSystemId_def countAndEmit_def countReceived_def trackSequence_def
        setLastIndex_def reportLoss_def c_rem_def emit_def Let_def
        exampleE_def exampleStart_eq exampleHeartbeat_def examplePayload_def)
  have "messageReceived exampleLink (exampleHeartbeat 0) \<in> set (new_effects exampleStart
     (handleMessage exampleE exampleLink 0 [] (exampleHeartbeat 0) exampleStart))"
    unfolding e by simp
  from dispatch_requires_vehicle[OF this] e
  show ?thesis by (simp add: exampleE_def)
qed

text \<open>
  C2: for a pair of system id and component id whose last observed sequence number is
  \<open>l\<close>, observing the sequence number \<open>seq\<close> records exactly
  \<open>(seq - l - 1) mod 256\<close> losses and makes \<open>seq\<close> the pair's baseline: a jump
  from \<open>l\<close> to \<open>l + 5\<close> records 4 losses, a step to \<open>l + 1\<close> records none, and
  neither does 0 after 255.
\<close>

theorem sequence_gap_losses:
  assumes "lastIndex s (sysid m) (compid m) = uint (l::8 word)"
  shows "trackSequence m s =
           (setLastIndex (sysid m) (compid m) (uint (seq m)) s)
             \<lparr>totalLossCounter := totalLossCounter s + (uint (seq m) - uint l - 1) mod 256,
              currLossCounter := currLossCounter s + (uint (seq m) - uint l - 1) mod 256\<rparr>
         \<and> totalLossCounter (countAndEmit link m (Some u) s) =
             totalLossCounter s + (uint (seq m) - uint l - 1) mod 256
         \<and> lastIndex (countAndEmit link m (Some u) s) (sysid m) (compid m) = uint (seq m)
         \<and> (seq m = l + 5 \<longrightarrow>
              totalLossCounter (countAndEmit link m (Some u) s) = totalLossCounter s + 4
              \<and> lastIndex (countAndEmit link m (Some u) s) (sysid m) (compid m) = uint (l + 5))
         \<and> (seq m = l + 1 \<longrightarrow>
              totalLossCounter (countAndEmit link m (Some u) s) = totalLossCounter s)
         \<and> (l = 255 \<and> seq m = 0 \<longrightarrow>
              totalLossCounter (countAndEmit link m (Some u) s) = totalLossCounter s)"
proof -
  let ?k = "(uint (seq m) - uint l - 1) mod 256"
  have k: "?k = uint (seq m - l - 1)" by (rule gap_word)
  have a: "trackSequence m s =
           (setLastIndex (sysid m) (compid m) (uint (seq m)) s)
             \<lparr>totalLossCounter := totalLossCounter s + ?k,
              currLossCounter := currLossCounter s + ?k\<rparr>"
    unfolding k using assms by (rule trackSequence_next)
  have pre: "lastIndex (countReceived s) (sysid m) (compid m) = uint l"
    using assms by (simp add: countReceived_def)
  have t: "trackSequence m (countReceived s) =
           (setLastIndex (sysid m) (compid m) (uint (seq m)) (countReceived s))
             \<lparr>totalLossCounter := totalLossCounter (countReceived s) + ?k,
              currLossCounter := currLossCounter (countReceived s) + ?k\<rparr>"
    unfolding k using pre by (rule trackSequence_next)
  have b: "totalLossCounter (countAndEmit link m (Some u) s) = totalLossCounter s + ?k"
    unfolding countAndEmit_totalLoss t by (simp add: countReceived_def setLastIndex_def)
  have c: "lastIndex (countAndEmit link m (Some u) s) (sysid m) (compid m) = uint (seq m)"
    unfolding countAndEmit_lastIndex t by (simp add: setLastIndex_def)
  have k5: "seq m = l + 5 \<Longrightarrow> ?k = 4" unfolding k by simp
  have k1: "seq m = l + 1 \<Longrightarrow> ?k = 0" unfolding k by simp
  have k0: "l = 255 \<and> seq m = 0 \<Longrightarrow> ?k = 0" unfolding k by simp
  show ?thesis using a b c k5 k1 k0 by auto
qed

theorem sequence_gap_losses_witness:
  "totalLossCounter
     (countAndEmit exampleLink (exampleData 7) (Some (7::8 word))
        (setLastIndex 7 1 2 exampleStart)) = 4
   \<and> lastIndex
     (countAndEmit exampleLink (exampleData 7) (Some (7::8 word))
        (setLastIndex 7 1 2 exampleStart)) 7 1 = 7
   \<and> totalLossCounter
     (countAndEmit exampleLink (exampleData 3) (Some (7::8 word))
        (setLastIndex 7 1 2 exampleStart)) = 0
   \<and> totalLossCounter
     (countAndEmit exampleLink (exampleData 0) (Some (7::8 word))
        (setLastIndex 7 1 255 exampleStart)) = 0
   \<and> lastIndex
     (countAndEmit exampleLink (exampleData 0) (Some (7::8 word))
        (setLastIndex 7 1 255 exampleStart)) 7 1 = 0"
proof -
  have h: "lastIndex (setLastIndex 7 1 2 exampleStart) (sysid (exampleData q)) (compid (exampleData q))
             = uint (2::8 word)" for q
    by (simp add: setLastIndex_def exampleData_def)
  have g: "lastIndex (setLastIndex 7 1 255 exampleStart) (sysid (exampleData q)) (compid (exampleData q))
             = uint (255::8 word)" for q
    by (simp add: setLastIndex_def exampleData_def)
  have z: "totalLossCounter (setLastIndex 7 1 v exampleStart) = 0" for v
    by (simp add: setLastIndex_def exampleStart_eq)
  have a: "totalLossCounter
     (countAndEmit exampleLink (exampleData 7) (Some (7::8 word))
        (setLastIndex 7 1 2 exampleStart)) = 4
   \<and> lastIndex
     (countAndEmit exampleLink (exampleData 7) (Some (7::8 word))
        (setLastIndex 7 1 2 exampleStart)) 7 1 = 7"
    using sequence_gap_losses[OF h, of 7 exampleLink "7::8 word"] z
    by (simp add: exampleData_def)
  have b: "totalLossCounter
     (countAndEmit exampleLink (exampleData 3) (Some (7::8 word))
        (setLastIndex 7 1 2 exampleStart)) = 0"
    using sequence_gap_losses[OF h, of 3 exampleLink "7::8 word"] z
    by (simp add: exampleData_def)
  have c: "totalLossCounter
     (countAndEmit exampleLink (exampleData 0) (Some (7::8 word))
        (setLastIndex 7 1 255 exampleStart)) = 0
   \<and> lastIndex
     (countAndEmit exampleLink (exampleData 0) (Some (7::8 word))
        (setLastIndex 7 1 255 exampleStart)) 7 1 = 0"
    using sequence_gap_losses[OF g, of 0 exampleLink "7::8 word"] z
    by (simp add: exampleData_def)
  show ?thesis using a b c by blast
qed

text \<open>
  C3, as the claim states it, fails in the ratio: lines 289-290 compute it in floating
  point (the quotient of the two counters as \<^verbatim>\<open>double\<close>, narrowed to \<^verbatim>\<open>float\<close>, then
  multiplied by \<^verbatim>\<open>100.0f\<close>), so the value reported is the rounded one. A data message
  with sequence number 2 after a heartbeat with sequence number 0 leaves 1 lost and 2
  received in the window; the ratio reported is 4369067 / 131072 =
  33.33333587646484375, which is not 1 / (2 + 1) * 100.
\<close>

theorem loss_ratio_report_counterexample:
  "new_effects exampleVehicle
     (handleMessage exampleE exampleLink 0 [] (exampleData 2) exampleVehicle)
     = [receiveLossChanged 7 (Finite (4369067 / 131072)),
        messageReceived exampleLink (exampleData 2)]
   \<and> currLossCounter (trackSequence (exampleData 2) (countReceived exampleVehicle)) = 1
   \<and> currReceiveCounter (trackSequence (exampleData 2) (countReceived exampleVehicle)) = 2
   \<and> (4369067 / 131072 :: real) \<noteq> 1 / (2 + 1) * 100"
  using exampleVehicle_report(1)[of 0 "[]"] exampleVehicle_report(2,3) by simp

text \<open>
  C3, amended: for a counted message, with \<open>t\<close> the state after the counters are updated
  (lines 239-275): a loss ratio is reported if and only if a loss was recorded during
  this call or the lifetime receive counter is a multiple of 64; the ratio reported is
  \<open>receiveLoss t\<close>, that is windowed lost / (windowed received + windowed lost) * 100 on
  the counters of \<open>t\<close> evaluated in floating point as lines 289-290 do (the quotient in
  \<^verbatim>\<open>double\<close>, narrowed to \<^verbatim>\<open>float\<close>, the product with \<^verbatim>\<open>100.0f\<close> in \<^verbatim>\<open>float\<close>), which
  for counters in range differs from the exact value by at most a fraction \<open>1 / 2 ^ 22\<close>
  of it; both windowed counters are zero after the report, and without a report they
  keep their values. The lifetime counters are never reset: no call on the object makes
  either smaller.
\<close>

theorem loss_ratio_report:
  fixes s :: "('p, 'r) protocol" and u :: 'u and z :: "('q, 'v) protocol"
    and m :: mavlink_message and link :: LinkInterface
  defines "t \<equiv> trackSequence m (countReceived s)"
      and "s' \<equiv> countAndEmit link m (Some u) s"
  shows "(list_ex is_loss_report (new_effects s s') \<longleftrightarrow>
            totalLossCounter t \<noteq> totalLossCounter s \<or> 64 dvd totalReceiveCounter t)
       \<and> (list_ex is_loss_report (new_effects s s') \<longrightarrow>
            new_effects s s' = [receiveLossChanged (sysid m) (receiveLoss t), messageReceived link m]
            \<and> currLossCounter s' = 0 \<and> currReceiveCounter s' = 0)
       \<and> (0 \<le> currLossCounter t \<and> 1 \<le> currReceiveCounter t
          \<and> currReceiveCounter t + currLossCounter t < 2 ^ 53 \<longrightarrow>
            receiveLoss t =
              Finite (to_float (to_float (to_double
                (real_of_int (currLossCounter t)
                   / real_of_int (currReceiveCounter t + currLossCounter t))) * 100))
            \<and> \<bar>to_float (to_float (to_double
                (real_of_int (currLossCounter t)
                   / real_of_int (currReceiveCounter t + currLossCounter t))) * 100)
                - real_of_int (currLossCounter t)
                    / real_of_int (currReceiveCounter t + currLossCounter t) * 100\<bar>
              \<le> real_of_int (currLossCounter t)
                    / real_of_int (currReceiveCounter t + currLossCounter t) * 100 / 2 ^ 22)
       \<and> (\<not> list_ex is_loss_report (new_effects s s') \<longrightarrow>
            new_effects s s' = [messageReceived link m]
            \<and> currLossCounter s' = currLossCounter t
            \<and> currReceiveCounter s' = currReceiveCounter t)
       \<and> totalReceiveCounter t = totalReceiveCounter s + 1
       \<and> currReceiveCounter t = currReceiveCounter s + 1
       \<and> totalReceiveCounter s' = totalReceiveCounter t
       \<and> totalLossCounter s' = totalLossCounter t
       \<and> totalLossCounter s \<le> totalLossCounter t
       \<and> totalReceiveCounter z \<le> totalReceiveCounter (perform E c z)
       \<and> totalLossCounter z \<le> totalLossCounter (perform E c z)"
proof -
  let ?cond = "totalLossCounter t \<noteq> totalLossCounter s \<or> 64 dvd totalReceiveCounter t"
  let ?l = "real_of_int (currLossCounter t)"
  let ?n = "real_of_int (currReceiveCounter t + currLossCounter t)"
  have tr: "totalReceiveCounter t = totalReceiveCounter s + 1"
    and cr: "currReceiveCounter t = currReceiveCounter s + 1"
    unfolding t_def by (simp_all add: trackSequence_same countReceived_def)
  have tl: "totalLossCounter s \<le> totalLossCounter t"
    using trackSequence_same(7)[of "countReceived s" m] unfolding t_def
    by (simp add: countReceived_def)
  have tot: "totalReceiveCounter s' = totalReceiveCounter t" "totalLossCounter s' = totalLossCounter t"
    unfolding s'_def t_def tr[unfolded t_def]
    by (simp_all add: countAndEmit_totalReceive countAndEmit_totalLoss)
  have yes: "new_effects s s' = [receiveLossChanged (sysid m) (receiveLoss t), messageReceived link m]
            \<and> currLossCounter s' = 0 \<and> currReceiveCounter s' = 0" if ?cond
  proof -
    have "totalLossCounter (trackSequence m (countReceived s)) \<noteq> totalLossCounter s
           \<or> 64 dvd totalReceiveCounter s + 1"
      using that unfolding tr unfolding t_def .
    from countAndEmit_report[OF this, of link u]
    show ?thesis unfolding s'_def t_def
      by (simp add: new_effects_def)
  qed
  have no: "new_effects s s' = [messageReceived link m]
            \<and> currLossCounter s' = currLossCounter t
            \<and> currReceiveCounter s' = currReceiveCounter t" if "\<not> ?cond"
  proof -
    have "\<not> (totalLossCounter (trackSequence m (countReceived s)) \<noteq> totalLossCounter s
           \<or> 64 dvd totalReceiveCounter s + 1)"
      using that unfolding tr unfolding t_def .
    from countAndEmit_no_report[OF this, of link u]
    show ?thesis unfolding s'_def t_def
      by (simp add: new_effects_def)
  qed
  have iff: "list_ex is_loss_report (new_effects s s') \<longleftrightarrow> ?cond"
  proof (cases ?cond)
    case True
    then show ?thesis using yes by simp
  next
    case False
    then show ?thesis using no by simp
  qed
  have ratio: "receiveLoss t = Finite (to_float (to_float (to_double (?l / ?n)) * 100))
            \<and> \<bar>to_float (to_float (to_double (?l / ?n)) * 100) - ?l / ?n * 100\<bar>
              \<le> ?l / ?n * 100 / 2 ^ 22"
    if r: "0 \<le> currLossCounter t" "1 \<le> currReceiveCounter t"
      "currReceiveCounter t + currLossCounter t < 2 ^ 53"
  proof -
    have "\<bar>currLossCounter t\<bar> < 2 ^ 53" using r by simp
    then have l: "to_double ?l = ?l" by (rule to_double_of_int)
    have "\<bar>currReceiveCounter t + currLossCounter t\<bar> < 2 ^ 53" using r by simp
    then have n: "to_double ?n = ?n" by (rule to_double_of_int)
    have "1 \<le> currReceiveCounter t + currLossCounter t" using r by simp
    from receiveLoss_defined[OF this]
    have a: "receiveLoss t = Finite (to_float (to_float (to_double (?l / ?n)) * 100))"
      unfolding l n .
    have "0 \<le> ?l / ?n" using r by simp
    from ratio_error[OF this] a show ?thesis by simp
  qed
  show ?thesis
    using iff yes no ratio tr cr tot tl perform_totals[of z E c] by blast
qed

theorem loss_ratio_report_witness:
  "new_effects (setLastIndex 7 1 2 exampleStart)
     (countAndEmit exampleLink (exampleData 7) (Some (7::8 word)) (setLastIndex 7 1 2 exampleStart))
   = [receiveLossChanged 7 (Finite 80), messageReceived exampleLink (exampleData 7)]
   \<and> new_effects exampleStart
     (countAndEmit exampleLink (exampleData 7) (Some (7::8 word)) exampleStart)
   = [messageReceived exampleLink (exampleData 7)]
   \<and> to_float (to_float (to_double (4 / 5)) * 100) = 80"
proof -
  let ?s = "setLastIndex 7 1 2 exampleStart"
  have h: "lastIndex (countReceived ?s) (sysid (exampleData 7)) (compid (exampleData 7))
             = uint (2::8 word)"
    by (simp add: setLastIndex_def exampleData_def countReceived_def)
  have t: "trackSequence (exampleData 7) (countReceived ?s) =
     (setLastIndex 7 1 7 (countReceived ?s))
       \<lparr>totalLossCounter := 4, currLossCounter := 4\<rparr>"
    using trackSequence_next[OF h]
    by (simp add: exampleData_def setLastIndex_def countReceived_def exampleStart_eq)
  note r = loss_ratio_report[where s = ?s and m = "exampleData 7" and link = exampleLink
        and u = "7::8 word" and z = exampleStart and E = exampleE and c = "EnableLogging False"]
  have c: "list_ex is_loss_report (new_effects ?s
     (countAndEmit exampleLink (exampleData 7) (Some (7::8 word)) ?s))"
    using r unfolding t by (simp add: setLastIndex_def exampleStart_eq countReceived_def)
  have "1 \<le> currReceiveCounter (trackSequence (exampleData 7) (countReceived ?s))
            + currLossCounter (trackSequence (exampleData 7) (countReceived ?s))"
    unfolding t by (simp add: setLastIndex_def exampleStart_eq countReceived_def)
  from receiveLoss_defined[OF this]
  have v: "receiveLoss (trackSequence (exampleData 7) (countReceived ?s)) = Finite 80"
    unfolding t
    by (simp add: setLastIndex_def exampleStart_eq countReceived_def example_ratio_80)
  have a: "new_effects ?s (countAndEmit exampleLink (exampleData 7) (Some (7::8 word)) ?s)
     = [receiveLossChanged 7 (Finite 80), messageReceived exampleLink (exampleData 7)]"
    using r c unfolding v by (simp add: exampleData_def)
  have f: "lastIndex (countReceived exampleStart) (sysid (exampleData 7)) (compid (exampleData 7))
             = - 1"
    by (simp add: exampleStart_eq countReceived_def)
  have u: "trackSequence (exampleData 7) (countReceived exampleStart) =
     setLastIndex 7 1 7 (countReceived exampleStart)"
    using trackSequence_first[OF f] by (simp add: exampleData_def)
  note n = loss_ratio_report[where s = exampleStart and m = "exampleData 7" and link = exampleLink
        and u = "7::8 word" and z = exampleStart and E = exampleE and c = "EnableLogging False"]
  have d: "\<not> list_ex is_loss_report (new_effects exampleStart
     (countAndEmit exampleLink (exampleData 7) (Some (7::8 word)) exampleStart))"
    using n unfolding u by (simp add: setLastIndex_def exampleStart_eq countReceived_def)
  have b: "new_effects exampleStart
     (countAndEmit exampleLink (exampleData 7) (Some (7::8 word)) exampleStart)
     = [messageReceived exampleLink (exampleData 7)]"
    using n d by blast
  have "receiveLoss (trackSequence (exampleData 7) (countReceived ?s))
          = Finite (to_float (to_float (to_double (4 / 5)) * 100))"
    using r unfolding t by (simp add: setLastIndex_def exampleStart_eq countReceived_def)
  then have e: "to_float (to_float (to_double (4 / 5)) * 100) = 80" unfolding v by simp
  show ?thesis using a b e by blast
qed



text \<open>
  C5: a heartbeat from a system id without a vehicle. With version checking enabled and
  a version other than the supported one, the message is discarded: no vehicle is
  created and the registry is as before, no counter and no baseline changes, and the
  message is not emitted. With version checking disabled the sender is admitted
  whatever the version says: \<open>createUAS\<close> is called, and the message is counted and
  emitted when it returns a vehicle. In both cases the loop of \<^verbatim>\<open>receiveBytes\<close> goes on
  with the bytes that remain.
\<close>

theorem version_gate:
  assumes "getUASForId E (uasManager s) (sysid m) = None"
      and "msgid m = MAVLINK_MSG_ID_HEARTBEAT E"
  shows "(m_enable_version_check s
          \<and> mavlink_version (mavlink_msg_heartbeat_decode E m) \<noteq> MAVLINK_VERSION E \<longrightarrow>
            uasManager (handleMessage E link time buf m s) = uasManager s
            \<and> \<not> list_ex is_create (new_effects s (handleMessage E link time buf m s))
            \<and> \<not> list_ex is_dispatch (new_effects s (handleMessage E link time buf m s))
            \<and> \<not> list_ex is_loss_report (new_effects s (handleMessage E link time buf m s))
            \<and> totalReceiveCounter (handleMessage E link time buf m s) = totalReceiveCounter s
            \<and> totalLossCounter (handleMessage E link time buf m s) = totalLossCounter s
            \<and> currReceiveCounter (handleMessage E link time buf m s) = currReceiveCounter s
            \<and> currLossCounter (handleMessage E link time buf m s) = currLossCounter s
            \<and> lastIndex (handleMessage E link time buf m s) = lastIndex s)
       \<and> (\<not> m_enable_version_check s \<longrightarrow>
            createUAS_called link (sysid m) (mavlink_msg_heartbeat_decode E m)
              \<in> set (new_effects s (handleMessage E link time buf m s))
            \<and> uasManager (handleMessage E link time buf m s)
                = snd (createUAS E link (sysid m) (mavlink_msg_heartbeat_decode E m) (uasManager s))
            \<and> (fst (createUAS E link (sysid m) (mavlink_msg_heartbeat_decode E m) (uasManager s))
                  \<noteq> None \<longrightarrow>
                 messageReceived link m \<in> set (new_effects s (handleMessage E link time buf m s))
                 \<and> totalReceiveCounter (handleMessage E link time buf m s)
                     = totalReceiveCounter s + 1))
       \<and> (mavlink_parse_char E (word_of_int (getId link)) c (mavlink_status s) = (p, Some m) \<longrightarrow>
            receiveLoop E link clock stack position (c # b) s
              = receiveLoop E link clock stack (Suc position) b
                  (handleMessage E link (clock position) (stack position) m
                     (s\<lparr>mavlink_status := p\<rparr>)))"
proof -
  let ?s0 = "logMessage E time buf m s"
  let ?s' = "handleMessage E link time buf m s"
  let ?hb = "mavlink_msg_heartbeat_decode E m"
  have closed: "uasManager ?s' = uasManager s
            \<and> \<not> list_ex is_create (new_effects s ?s')
            \<and> \<not> list_ex is_dispatch (new_effects s ?s')
            \<and> \<not> list_ex is_loss_report (new_effects s ?s')
            \<and> totalReceiveCounter ?s' = totalReceiveCounter s
            \<and> totalLossCounter ?s' = totalLossCounter s
            \<and> currReceiveCounter ?s' = currReceiveCounter s
            \<and> currLossCounter ?s' = currLossCounter s
            \<and> lastIndex ?s' = lastIndex s"
    if chk: "m_enable_version_check s" and v: "mavlink_version ?hb \<noteq> MAVLINK_VERSION E"
  proof -
    note mm = handleMessage_mismatch[OF assms chk v, of link time buf]
    obtain es where es: "new_effects s ?s' =
            es @ (if versionMismatchIgnore s then []
                  else [protocolStatusMessage
                          (VersionMismatch (sysid m) (mavlink_version ?hb) (MAVLINK_VERSION E))])"
      "list_all (\<lambda>e. is_warning e \<and> \<not> is_version_warning e \<or> e = loggingChanged False) es"
      using mm(1) by blast
    have "\<not> list_ex is_create es" "\<not> list_ex is_dispatch es" "\<not> list_ex is_loss_report es"
      using es(2) log_effect_kinds by (fastforce simp: list_all_iff list_ex_iff)+
    then have "\<not> list_ex is_create (new_effects s ?s')"
      "\<not> list_ex is_dispatch (new_effects s ?s')"
      "\<not> list_ex is_loss_report (new_effects s ?s')"
      unfolding es(1) by simp_all
    then show ?thesis using mm(3-8) by simp
  qed
  have "open": "createUAS_called link (sysid m) ?hb \<in> set (new_effects s ?s')
            \<and> uasManager ?s' = snd (createUAS E link (sysid m) ?hb (uasManager s))
            \<and> (fst (createUAS E link (sysid m) ?hb (uasManager s)) \<noteq> None \<longrightarrow>
                 messageReceived link m \<in> set (new_effects s ?s')
                 \<and> totalReceiveCounter ?s' = totalReceiveCounter s + 1)"
    if off: "\<not> m_enable_version_check s"
  proof -
    let ?c = "checkSystemId m ?s0"
    let ?cr = "createUAS E link (sysid m) ?hb (uasManager s)"
    let ?b = "(emit (createUAS_called link (sysid m) ?hb) ?c)\<lparr>uasManager := snd ?cr\<rparr>"
    have um: "uasManager ?s0 = uasManager s" by (rule logMessage_fields)
    have none: "getUASForId E (uasManager ?s0) (sysid m) = None" using assms(1) um by simp
    have chk: "\<not> (m_enable_version_check ?s0 \<and> mavlink_version ?hb \<noteq> MAVLINK_VERSION E)"
      using off by (simp add: logMessage_fields)
    have eq: "?s' = countAndEmit link m (fst ?cr) ?b"
      unfolding handleMessage_def
      using admitMessage_create[OF none assms(2) chk, of link] by (simp add: um)
    obtain esl where esl: "emitted ?s0 = emitted s @ esl"
      using logMessage_emitted[of E time buf m s] by blast
    obtain C where C: "emitted ?c = emitted ?s0 @ C"
      using checkSystemId_emitted[of m ?s0] by blast
    have eb: "emitted ?b = emitted s @ esl @ C @ [createUAS_called link (sysid m) ?hb]"
      by (simp add: emit_def C esl)
    have tb: "totalReceiveCounter ?b = totalReceiveCounter s"
      by (simp add: emit_def checkSystemId_counters logMessage_fields)
    have u: "uasManager ?s' = snd ?cr" unfolding eq by (simp add: countAndEmit_fields)
    show ?thesis
    proof (cases "fst ?cr")
      case None
      have "new_effects s ?s' = esl @ C @ [createUAS_called link (sysid m) ?hb]"
        unfolding eq None by (simp add: countAndEmit_None new_effects_def eb)
      then show ?thesis using u None by simp
    next
      case (Some v)
      obtain R where R: "emitted (countAndEmit link m (Some v) ?b)
              = emitted ?b @ R @ [messageReceived link m]"
        using countAndEmit_emitted[of link m v ?b] by blast
      have "emitted ?s' = emitted ?b @ R @ [messageReceived link m]"
        unfolding eq Some by (rule R)
      then have "new_effects s ?s' =
          esl @ C @ [createUAS_called link (sysid m) ?hb] @ R @ [messageReceived link m]"
        unfolding eb by (simp add: new_effects_def)
      moreover have "totalReceiveCounter ?s' = totalReceiveCounter s + 1"
        unfolding eq Some by (simp add: countAndEmit_totalReceive tb)
      ultimately show ?thesis using u by simp
    qed
  qed
  have continue: "receiveLoop E link clock stack position (c # b) s
              = receiveLoop E link clock stack (Suc position) b
                  (handleMessage E link (clock position) (stack position) m
                     (s\<lparr>mavlink_status := p\<rparr>))"
    if "mavlink_parse_char E (word_of_int (getId link)) c (mavlink_status s) = (p, Some m)"
    using that by simp
  show ?thesis using closed "open" continue by blast
qed

theorem version_gate_witness:
  "\<not> list_ex is_dispatch
       (new_effects exampleStart
          (handleMessage exampleE exampleLink 0 [] (exampleOldHeartbeat 0) exampleStart))
   \<and> uasManager (handleMessage exampleE exampleLink 0 [] (exampleOldHeartbeat 0) exampleStart) = []
   \<and> totalReceiveCounter
        (handleMessage exampleE exampleLink 0 [] (exampleOldHeartbeat 0) exampleStart) = 0
   \<and> messageReceived exampleLink (exampleOldHeartbeat 0)
        \<in> set (new_effects (enableVersionCheck False exampleStart)
                 (handleMessage exampleE exampleLink 0 [] (exampleOldHeartbeat 0)
                    (enableVersionCheck False exampleStart)))
   \<and> uasManager (handleMessage exampleE exampleLink 0 [] (exampleOldHeartbeat 0)
                    (enableVersionCheck False exampleStart)) = [7]
   \<and> receiveLoop exampleE exampleLink (\<lambda>n. 0) (\<lambda>n. []) 0 [3]
        (exampleStart\<lparr>mavlink_status := [7, 1, 0, 0, 1, 0]\<rparr>)
       = handleMessage exampleE exampleLink 0 [] (exampleOldHeartbeat 0) exampleStart"
proof -
  have hb: "msgid (exampleOldHeartbeat 0) = MAVLINK_MSG_ID_HEARTBEAT exampleE"
    by (simp add: exampleE_def exampleOldHeartbeat_def)
  have a: "getUASForId exampleE (uasManager exampleStart) (sysid (exampleOldHeartbeat 0)) = None"
    by (simp add: exampleE_def exampleStart_eq)
  have one: "\<not> list_ex is_dispatch
       (new_effects exampleStart
          (handleMessage exampleE exampleLink 0 [] (exampleOldHeartbeat 0) exampleStart))
   \<and> uasManager (handleMessage exampleE exampleLink 0 [] (exampleOldHeartbeat 0) exampleStart) = []
   \<and> totalReceiveCounter
        (handleMessage exampleE exampleLink 0 [] (exampleOldHeartbeat 0) exampleStart) = 0"
    using version_gate[OF a hb, where link = exampleLink and time = 0 and buf = "[]"
        and c = 0 and p = "[]" and clock = "\<lambda>n. 0" and stack = "\<lambda>n. []" and position = 0
        and b = "[]"]
    by (simp add: exampleE_def exampleStart_eq exampleOldHeartbeat_def examplePayload_def)
  let ?s = "enableVersionCheck False exampleStart"
  have b: "getUASForId exampleE (uasManager ?s) (sysid (exampleOldHeartbeat 0)) = None"
    by (simp add: exampleE_def exampleStart_eq enableVersionCheck_def emit_def)
  have two: "messageReceived exampleLink (exampleOldHeartbeat 0)
        \<in> set (new_effects ?s
                 (handleMessage exampleE exampleLink 0 [] (exampleOldHeartbeat 0) ?s))
   \<and> uasManager (handleMessage exampleE exampleLink 0 [] (exampleOldHeartbeat 0) ?s) = [7]"
    using version_gate[OF b hb, where link = exampleLink and time = 0 and buf = "[]"
        and c = 0 and p = "[]" and clock = "\<lambda>n. 0" and stack = "\<lambda>n. []" and position = 0
        and b = "[]"]
    by (simp add: exampleE_def exampleStart_eq exampleOldHeartbeat_def examplePayload_def
        enableVersionCheck_def emit_def)
  let ?t = "exampleStart\<lparr>mavlink_status := [7, 1, 0, 0, 1, 0]\<rparr>"
  have c: "getUASForId exampleE (uasManager ?t) (sysid (exampleOldHeartbeat 0)) = None"
    by (simp add: exampleE_def exampleStart_eq)
  have p: "mavlink_parse_char exampleE (word_of_int (getId exampleLink)) 3 (mavlink_status ?t)
             = ([], Some (exampleOldHeartbeat 0))"
    by (simp add: exampleE_def exampleOldHeartbeat_def)
  have r: "?t\<lparr>mavlink_status := []\<rparr> = exampleStart"
    by (simp add: exampleStart_eq)
  have three: "receiveLoop exampleE exampleLink (\<lambda>n. 0) (\<lambda>n. []) 0 [3] ?t
       = handleMessage exampleE exampleLink 0 [] (exampleOldHeartbeat 0) exampleStart"
    using version_gate[OF c hb, where link = exampleLink and time = 0 and buf = "[]"
        and c = 3 and p = "[]" and clock = "\<lambda>n. 0" and stack = "\<lambda>n. []" and position = 0
        and b = "[]"] p
    unfolding r by simp
  show ?thesis using one two three by blast
qed

text \<open>
  C6: the advance of one observe step is a bounded loop. It counts at most 255 losses
  (the local \<open>safeguard\<close> counts them and ends between 0 and 255, in every state),
  and after it the pair's baseline is the observed sequence number: in every state whose
  tracker data is in range, and so in every state that the object reaches from its
  constructor. \<open>lossLoop\<close> is a total function, so the accounting terminates.
\<close>

theorem advance_bounded:
  "0 \<le> fst (lossLoop m 0 s) \<and> fst (lossLoop m 0 s) \<le> 255
   \<and> totalLossCounter (snd (lossLoop m 0 s)) = totalLossCounter s + fst (lossLoop m 0 s)
   \<and> currLossCounter (snd (lossLoop m 0 s)) = currLossCounter s + fst (lossLoop m 0 s)
   \<and> totalLossCounter (trackSequence m s) \<le> totalLossCounter s + 255
   \<and> (tracker_ok s \<longrightarrow> lastIndex (trackSequence m s) (sysid m) (compid m) = uint (seq m))
   \<and> lastIndex (countAndEmit link m (Some u) (run E cs (MAVLinkProtocol E st p r d)))
        (sysid m) (compid m) = uint (seq m)"
proof -
  obtain k L where k: "0 \<le> k" "0 + k \<le> 255" and
    eq: "lossLoop m 0 s =
       (0 + k, s\<lparr>lastIndex := L,
                   totalLossCounter := totalLossCounter s + k,
                   currLossCounter := currLossCounter s + k\<rparr>)"
    using lossLoop_shape[of 0 m s] by auto
  have a: "0 \<le> fst (lossLoop m 0 s)" "fst (lossLoop m 0 s) \<le> 255"
    "totalLossCounter (snd (lossLoop m 0 s)) = totalLossCounter s + fst (lossLoop m 0 s)"
    "currLossCounter (snd (lossLoop m 0 s)) = currLossCounter s + fst (lossLoop m 0 s)"
    using k by (simp_all add: eq)
  obtain j M where j: "0 \<le> j" "j \<le> 255" and
    sh: "trackSequence m s =
       s\<lparr>lastIndex := M,
          totalLossCounter := totalLossCounter s + j,
          currLossCounter := currLossCounter s + j\<rparr>"
    using trackSequence_shape[of m s] by blast
  have b: "totalLossCounter (trackSequence m s) \<le> totalLossCounter s + 255"
    using j by (simp add: sh)
  have c: "tracker_ok s \<longrightarrow> lastIndex (trackSequence m s) (sysid m) (compid m) = uint (seq m)"
    by (simp add: trackSequence_baseline)
  let ?r = "run E cs (MAVLinkProtocol E st p r d)"
  have "tracker_ok ?r" by (intro tracker_ok_run tracker_ok_constructor)
  then have "tracker_ok (countReceived ?r)" by (simp add: tracker_ok_def countReceived_def)
  then have d: "lastIndex (countAndEmit link m (Some u) ?r) (sysid m) (compid m) = uint (seq m)"
    unfolding countAndEmit_lastIndex by (rule trackSequence_baseline)
  show ?thesis using a b c d by blast
qed

theorem advance_bounded_witness:
  "fst (lossLoop (exampleData 7) 0 exampleStart) \<le> 255
   \<and> lastIndex (trackSequence (exampleData 7) exampleStart) 7 1 = 7"
  using advance_bounded[where m = "exampleData 7" and s = exampleStart and link = exampleLink
      and u = "7::8 word" and E = exampleE and cs = "[]" and st = noSettings and p = "[]"
      and r = "[]" and d = "\<lambda>n. []"]
    tracker_ok_exampleStart
  by (simp add: exampleData_def)

text \<open>
  C7, as the claim states it, fails: a record is not the time stamp and the frame and
  nothing else. \<^verbatim>\<open>receiveBytes\<close> writes the whole array of
  \<^verbatim>\<open>MAVLINK_MAX_PACKET_LEN + 8\<close> bytes, so a frame of 9 bytes gives a record of 271
  bytes, not of 17.
\<close>

theorem log_record_format_counterexample:
  "m_loggingEnabled (exampleLogging exampleE)
   \<and> disk (exampleLogging exampleE) ''log'' = []
   \<and> length (disk (handleMessage exampleE exampleLink 0 [] (exampleData 4)
                      (exampleLogging exampleE)) ''log'') = 271
   \<and> length (timeBytes 0 @ mavlink_msg_to_send_buffer exampleE (exampleData 4)) = 17
   \<and> disk (handleMessage exampleE exampleLink 0 [] (exampleData 4)
              (exampleLogging exampleE)) ''log''
       \<noteq> timeBytes 0 @ mavlink_msg_to_send_buffer exampleE (exampleData 4)"
proof -
  let ?d = "disk (handleMessage exampleE exampleLink 0 [] (exampleData 4)
                      (exampleLogging exampleE)) ''log''"
  have a: "m_loggingEnabled (exampleLogging exampleE)" "disk (exampleLogging exampleE) ''log'' = []"
    by (simp_all add: exampleLogging_eq exampleE_fields)
  have b: "length ?d = 271"
    unfolding exampleLogging_write by (simp add: length_logRecord exampleE_fields)
  have c: "length (timeBytes 0 @ mavlink_msg_to_send_buffer exampleE (exampleData 4)) = 17"
    by (simp add: length_timeBytes exampleE_fields)
  have "?d \<noteq> timeBytes 0 @ mavlink_msg_to_send_buffer exampleE (exampleData 4)"
  proof
    assume "?d = timeBytes 0 @ mavlink_msg_to_send_buffer exampleE (exampleData 4)"
    then have "length ?d = length (timeBytes 0 @ mavlink_msg_to_send_buffer exampleE (exampleData 4))"
      by simp
    then show False unfolding b c by simp
  qed
  then show ?thesis using a b c by blast
qed

text \<open>
  C7, amended: every record that is written completely has the fixed length
  \<^verbatim>\<open>MAVLINK_MAX_PACKET_LEN + 8\<close>: the 8 bytes of the time stamp, least significant byte
  first, then the complete frame of the message, then padding up to the fixed length:
  the bytes of the array that neither of the two has overwritten.
\<close>

theorem log_record_format:
  assumes "m_logfile s = Some f" and "m_loggingEnabled s" and "isOpen f"
      and "qfile_write E (fileName f) (disk s (fileName f)) (logRecord E time buf m)
             = int (MAVLINK_MAX_PACKET_LEN E + 8)"
      and "MAVLINK_MAX_PACKET_LEN E + 8 < 2 ^ 64"
      and "length (mavlink_msg_to_send_buffer E m) \<le> MAVLINK_MAX_PACKET_LEN E"
  shows "\<exists>padding.
           disk (handleMessage E link time buf m s) (fileName f)
             = disk s (fileName f) @ timeBytes time @ mavlink_msg_to_send_buffer E m @ padding
           \<and> padding = drop (8 + length (mavlink_msg_to_send_buffer E m))
                         (take (MAVLINK_MAX_PACKET_LEN E + 8)
                            (buf @ replicate (MAVLINK_MAX_PACKET_LEN E + 8) 0))
           \<and> length padding
               = MAVLINK_MAX_PACKET_LEN E - length (mavlink_msg_to_send_buffer E m)
           \<and> length (timeBytes time @ mavlink_msg_to_send_buffer E m @ padding)
               = MAVLINK_MAX_PACKET_LEN E + 8
           \<and> length (timeBytes time) = 8
           \<and> (\<forall>i<8. unat (timeBytes time ! i) = (unat time div 256 ^ i) mod 256)"
proof -
  let ?pad = "drop (8 + length (mavlink_msg_to_send_buffer E m))
                         (take (MAVLINK_MAX_PACKET_LEN E + 8)
                            (buf @ replicate (MAVLINK_MAX_PACKET_LEN E + 8) 0))"
  have "disk (handleMessage E link time buf m s) (fileName f)
          = disk s (fileName f) @ logRecord E time buf m"
    unfolding handleMessage_disk logMessage_complete[OF assms(1-5)] by simp
  then have a: "disk (handleMessage E link time buf m s) (fileName f)
          = disk s (fileName f) @ timeBytes time @ mavlink_msg_to_send_buffer E m @ ?pad"
    unfolding logRecord_parts[OF assms(6)] .
  have b: "length ?pad = MAVLINK_MAX_PACKET_LEN E - length (mavlink_msg_to_send_buffer E m)"
    by simp
  have c: "length (timeBytes time @ mavlink_msg_to_send_buffer E m @ ?pad)
               = MAVLINK_MAX_PACKET_LEN E + 8"
    using assms(6) by (simp add: length_timeBytes)
  show ?thesis
    using a b c length_timeBytes[of time] timeBytes_digit[of _ time] by blast
qed

theorem log_record_format_witness:
  "\<exists>padding.
     disk (handleMessage exampleE exampleLink 258 [] (exampleData 4) (exampleLogging exampleE)) ''log''
       = timeBytes 258 @ [0x55, 1, 4, 7, 1, 30, 9, 0, 0] @ padding
     \<and> length padding = 254
     \<and> unat (timeBytes 258 ! 0) = 2 \<and> unat (timeBytes 258 ! 1) = 1"
proof -
  let ?s = "exampleLogging exampleE"
  let ?f = "\<lparr>fileName = ''log'', isOpen = True\<rparr>"
  have s: "m_logfile ?s = Some ?f" "m_loggingEnabled ?s" "isOpen ?f"
    by (simp_all add: exampleLogging_eq exampleE_fields)
  have w: "qfile_write exampleE (fileName ?f) (disk ?s (fileName ?f))
             (logRecord exampleE 258 [] (exampleData 4))
             = int (MAVLINK_MAX_PACKET_LEN exampleE + 8)"
    by (simp add: exampleE_fields length_logRecord)
  have n: "MAVLINK_MAX_PACKET_LEN exampleE + 8 < 2 ^ 64" by (simp add: exampleE_fields)
  have l: "length (mavlink_msg_to_send_buffer exampleE (exampleData 4))
             \<le> MAVLINK_MAX_PACKET_LEN exampleE"
    by (simp add: exampleE_fields)
  have d: "disk ?s ''log'' = []" by (simp add: exampleLogging_eq exampleE_fields)
  obtain padding where pad:
    "disk (handleMessage exampleE exampleLink 258 [] (exampleData 4) ?s) (fileName ?f)
       = disk ?s (fileName ?f) @ timeBytes 258
           @ mavlink_msg_to_send_buffer exampleE (exampleData 4) @ padding"
    "length padding
       = MAVLINK_MAX_PACKET_LEN exampleE
           - length (mavlink_msg_to_send_buffer exampleE (exampleData 4))"
    and digits: "\<forall>i<8. unat (timeBytes 258 ! i) = (unat (258::64 word) div 256 ^ i) mod 256"
    using log_record_format[OF s w n l, of exampleLink] by blast
  have "unat (timeBytes 258 ! 0) = 2" "unat (timeBytes 258 ! 1) = 1"
    using digits by simp_all
  moreover have "disk (handleMessage exampleE exampleLink 258 [] (exampleData 4) ?s) ''log''
       = timeBytes 258 @ [0x55, 1, 4, 7, 1, 30, 9, 0, 0] @ padding
     \<and> length padding = 254"
    using pad by (simp add: d exampleE_fields)
  ultimately show ?thesis by blast
qed

text \<open>
  C8 (a defect of the code): \<^verbatim>\<open>enableLogging(true)\<close> on an object whose log file
  cannot be opened emits the warning and sets \<open>m_loggingEnabled\<close> to false (line 408),
  but line 425 then sets it to \<open>enabled\<close>: the call returns with logging enabled and
  announces \<open>loggingChanged(true)\<close>.
\<close>

theorem enableLogging_open_failure:
  "m_logfile (exampleStart\<lparr>m_logfile := Some \<lparr>fileName = [], isOpen = False\<rparr>\<rparr>)
     = Some \<lparr>fileName = [], isOpen = False\<rparr>
   \<and> \<not> m_loggingEnabled (exampleStart\<lparr>m_logfile := Some \<lparr>fileName = [], isOpen = False\<rparr>\<rparr>)
   \<and> \<not> qfile_open exampleE []
   \<and> m_loggingEnabled
       (enableLogging exampleE True
          (exampleStart\<lparr>m_logfile := Some \<lparr>fileName = [], isOpen = False\<rparr>\<rparr>))
   \<and> new_effects (exampleStart\<lparr>m_logfile := Some \<lparr>fileName = [], isOpen = False\<rparr>\<rparr>)
       (enableLogging exampleE True
          (exampleStart\<lparr>m_logfile := Some \<lparr>fileName = [], isOpen = False\<rparr>\<rparr>))
       = [protocolStatusMessage (LogfileOpenFailed []), loggingChanged True]"
  by (simp add: exampleStart_eq exampleE_def enableLogging_def closeLogfile_def emit_def
      new_effects_def Let_def)

text \<open>
  C9, as the claim states it, fails: the logging block runs for every decoded message,
  also for one that is dropped. With logging enabled and a write that falls short, the
  message of an unknown sender that is no heartbeat makes the object emit the warning
  "MAVLink Logging failed" and clear its logging flag.
\<close>

theorem unknown_sender_dropped_counterexample:
  "getUASForId exampleFullDisk (uasManager (exampleLogging exampleFullDisk))
       (sysid (exampleData 4)) = None
   \<and> msgid (exampleData 4) \<noteq> MAVLINK_MSG_ID_HEARTBEAT exampleFullDisk
   \<and> new_effects (exampleLogging exampleFullDisk)
        (handleMessage exampleFullDisk exampleLink 0 [] (exampleData 4)
           (exampleLogging exampleFullDisk))
       = [protocolStatusMessage (LoggingFailed ''log''), loggingChanged False]
   \<and> m_loggingEnabled (exampleLogging exampleFullDisk)
   \<and> \<not> m_loggingEnabled
         (handleMessage exampleFullDisk exampleLink 0 [] (exampleData 4)
            (exampleLogging exampleFullDisk))"
  by (simp add: exampleLogging_eq exampleFullDisk_fields exampleData_def
      new_effects_def handleMessage_def logMessage_def QFile_write_def shortWrite_def
      enableLogging_def closeLogfile_def admitMessage_def countAndEmit_def emit_def Let_def)

text \<open>
  C9, amended: a message that is no heartbeat, from a system id without a vehicle, is
  dropped after the logging block: the state after it is the state the logging block
  left. No vehicle is created, no counter and no baseline changes, nothing is
  dispatched and no loss ratio is reported; the registry, the tracker, the version
  check and its latch, the system id and the heartbeat settings are unchanged. The only
  signals are those of a failed log write, and with logging off the whole state is
  unchanged.
\<close>

theorem unknown_sender_dropped:
  assumes "getUASForId E (uasManager s) (sysid m) = None"
      and "msgid m \<noteq> MAVLINK_MSG_ID_HEARTBEAT E"
  shows "handleMessage E link time buf m s = logMessage E time buf m s
       \<and> (m_logfile s = None \<or> \<not> m_loggingEnabled s \<longrightarrow> handleMessage E link time buf m s = s)
       \<and> uasManager (handleMessage E link time buf m s) = uasManager s
       \<and> totalReceiveCounter (handleMessage E link time buf m s) = totalReceiveCounter s
       \<and> totalLossCounter (handleMessage E link time buf m s) = totalLossCounter s
       \<and> currReceiveCounter (handleMessage E link time buf m s) = currReceiveCounter s
       \<and> currLossCounter (handleMessage E link time buf m s) = currLossCounter s
       \<and> lastIndex (handleMessage E link time buf m s) = lastIndex s
       \<and> versionMismatchIgnore (handleMessage E link time buf m s) = versionMismatchIgnore s
       \<and> m_enable_version_check (handleMessage E link time buf m s) = m_enable_version_check s
       \<and> systemId (handleMessage E link time buf m s) = systemId s
       \<and> m_heartbeatsEnabled (handleMessage E link time buf m s) = m_heartbeatsEnabled s
       \<and> heartbeatRate (handleMessage E link time buf m s) = heartbeatRate s
       \<and> mavlink_status (handleMessage E link time buf m s) = mavlink_status s
       \<and> (new_effects s (handleMessage E link time buf m s) = []
          \<or> (\<exists>f. m_logfile s = Some f \<and> m_loggingEnabled s
                \<and> new_effects s (handleMessage E link time buf m s)
                    = [protocolStatusMessage (LoggingFailed (fileName f)),
                       loggingChanged False]))"
proof -
  let ?s0 = "logMessage E time buf m s"
  have "getUASForId E (uasManager ?s0) (sysid m) = None"
    using assms(1) by (simp add: logMessage_fields)
  then have eq: "handleMessage E link time buf m s = ?s0"
    unfolding handleMessage_def using assms(2) by (rule admitMessage_dropped)
  have off: "?s0 = s" if "m_logfile s = None \<or> \<not> m_loggingEnabled s"
    using that by (rule logMessage_off)
  obtain es where es: "emitted ?s0 = emitted s @ es"
     "es = [] \<or> (\<exists>f. m_logfile s = Some f \<and> m_loggingEnabled s \<and>
                   es = [protocolStatusMessage (LoggingFailed (fileName f)),
                         loggingChanged False])"
    using logMessage_emitted[of E time buf m s] by blast
  have ne: "new_effects s ?s0 = es" using es(1) by (rule new_effects_append)
  show ?thesis
    unfolding eq ne using off es(2) by (simp add: logMessage_fields)
qed

theorem unknown_sender_dropped_witness:
  "handleMessage exampleE exampleLink 0 [] (exampleData 4) exampleStart = exampleStart"
proof -
  have a: "getUASForId exampleE (uasManager exampleStart) (sysid (exampleData 4)) = None"
    by (simp add: exampleE_def exampleStart_eq)
  have b: "msgid (exampleData 4) \<noteq> MAVLINK_MSG_ID_HEARTBEAT exampleE"
    by (simp add: exampleE_def exampleData_def)
  have c: "m_logfile exampleStart = None \<or> \<not> m_loggingEnabled exampleStart"
    by (simp add: exampleStart_eq)
  show ?thesis
    using unknown_sender_dropped[OF a b, of exampleLink 0 "[]"] c by blast
qed

text \<open>
  C10: whenever the windowed loss ratio is computed (\<open>receiveLoss\<close>, called by
  \<open>reportLoss\<close> on the state \<open>t\<close> that the counting of lines 239-275 leaves, before the
  reset of lines 291-292), the windowed receive counter has been incremented for the
  current message and the windowed loss counter is not negative, so the denominator is
  at least 1 and the quotient is defined: no loss ratio that \<open>reportLoss\<close>,
  \<open>countAndEmit\<close> or \<open>handleMessage\<close> emits is the result of a division by zero, and none
  is emitted in any run from the constructor. It holds in every state whose tracker data
  is in range; the constructor establishes the range and every call keeps it. On
  counters that are both zero the quotient is not a number, which is what a
  computation after the reset would report.
\<close>

theorem loss_ratio_denominator_positive:
  "(tracker_ok s \<longrightarrow>
      1 \<le> currReceiveCounter (trackSequence m (countReceived s))
      \<and> 0 \<le> currLossCounter (trackSequence m (countReceived s))
      \<and> 1 \<le> currReceiveCounter (trackSequence m (countReceived s))
            + currLossCounter (trackSequence m (countReceived s))
      \<and> receiveLoss (trackSequence m (countReceived s)) \<noteq> NotFinite
      \<and> \<not> list_ex is_undefined_report
            (new_effects (trackSequence m (countReceived s))
               (reportLoss m lastLoss (trackSequence m (countReceived s))))
      \<and> \<not> list_ex is_undefined_report (new_effects s (countAndEmit link m uas s))
      \<and> \<not> list_ex is_undefined_report (new_effects s (handleMessage E link time buf m s))
      \<and> tracker_ok (perform E c s))
   \<and> \<not> list_ex is_undefined_report (emitted (run E cs (MAVLinkProtocol E st p r d)))
   \<and> tracker_ok (run E cs (MAVLinkProtocol E st p r d))
   \<and> (currReceiveCounter z + currLossCounter z = 0 \<longrightarrow>
        receiveLoss z = NotFinite
        \<and> new_effects z (reportLoss m (totalLossCounter z - 1) z)
            = [receiveLossChanged (sysid m) NotFinite])"
proof -
  let ?t = "trackSequence m (countReceived s)"
  let ?init = "MAVLinkProtocol E st p r d"
  have a: "1 \<le> currReceiveCounter ?t \<and> 0 \<le> currLossCounter ?t
      \<and> 1 \<le> currReceiveCounter ?t + currLossCounter ?t
      \<and> receiveLoss ?t \<noteq> NotFinite
      \<and> \<not> list_ex is_undefined_report (new_effects ?t (reportLoss m lastLoss ?t))
      \<and> \<not> list_ex is_undefined_report (new_effects s (countAndEmit link m uas s))
      \<and> \<not> list_ex is_undefined_report (new_effects s (handleMessage E link time buf m s))
      \<and> tracker_ok (perform E c s)"
    if ok: "tracker_ok s"
  proof -
    obtain k L where k: "0 \<le> k" and
      sh: "?t = (countReceived s)\<lparr>lastIndex := L,
          totalLossCounter := totalLossCounter (countReceived s) + k,
          currLossCounter := currLossCounter (countReceived s) + k\<rparr>"
      using trackSequence_shape[of m "countReceived s"] by blast
    have r: "1 \<le> currReceiveCounter ?t" and l: "0 \<le> currLossCounter ?t"
      using ok k unfolding sh by (simp_all add: countReceived_def tracker_ok_def)
    then have d: "1 \<le> currReceiveCounter ?t + currLossCounter ?t" by linarith
    from receiveLoss_defined[OF d] obtain x where x: "receiveLoss ?t = Finite x" by blast
    then have f: "receiveLoss ?t \<noteq> NotFinite" by simp
    have rl: "\<not> list_ex is_undefined_report (new_effects ?t (reportLoss m lastLoss ?t))"
      unfolding reportLoss_def x by (simp add: new_effects_def emit_def)
    have c: "\<not> list_ex is_undefined_report (new_effects s (countAndEmit link m uas s))"
      using defined_step_countAndEmit[OF ok, of link m uas]
      by (auto simp: defined_step_def new_effects_def)
    have h: "\<not> list_ex is_undefined_report (new_effects s (handleMessage E link time buf m s))"
      using defined_step_handleMessage[OF ok, of E link time buf m]
      by (auto simp: defined_step_def new_effects_def)
    have p: "tracker_ok (perform E c s)" using ok by (rule tracker_ok_perform)
    show ?thesis using r l d f rl c h p by blast
  qed
  have i: "tracker_ok ?init" by (rule tracker_ok_constructor)
  have b: "tracker_ok (run E cs ?init)" using i by (rule tracker_ok_run)
  have "defined_step ?init (run E cs ?init)" using i by (rule defined_step_run)
  then have c: "\<not> list_ex is_undefined_report (emitted (run E cs ?init))"
    using constructor_defined[of E st p r d] by (auto simp: defined_step_def)
  have e: "receiveLoss z = NotFinite
        \<and> new_effects z (reportLoss m (totalLossCounter z - 1) z)
            = [receiveLossChanged (sysid m) NotFinite]"
    if z: "currReceiveCounter z + currLossCounter z = 0"
  proof -
    have n: "receiveLoss z = NotFinite" using z by (rule receiveLoss_undefined)
    show ?thesis
      unfolding reportLoss_def n by (simp add: new_effects_def emit_def)
  qed
  show ?thesis using a b c e by blast
qed

theorem loss_ratio_denominator_positive_witness:
  "new_effects exampleVehicle
     (handleMessage exampleE exampleLink 0 [] (exampleData 2) exampleVehicle)
     = [receiveLossChanged 7 (Finite (4369067 / 131072)),
        messageReceived exampleLink (exampleData 2)]
   \<and> \<not> list_ex is_undefined_report
         (new_effects exampleVehicle
            (handleMessage exampleE exampleLink 0 [] (exampleData 2) exampleVehicle))
   \<and> 1 \<le> currReceiveCounter (trackSequence (exampleData 2) (countReceived exampleVehicle))
   \<and> receiveLoss (trackSequence (exampleData 2) (countReceived exampleVehicle)) \<noteq> NotFinite
   \<and> new_effects exampleStart (reportLoss (exampleData 2) (- 1) exampleStart)
       = [receiveLossChanged 7 NotFinite]"
proof -
  have "tracker_ok exampleVehicle"
    unfolding exampleVehicle_def using tracker_ok_exampleStart by (rule tracker_ok_handleMessage)
  moreover have "currReceiveCounter exampleStart + currLossCounter exampleStart = 0"
    and "totalLossCounter exampleStart - 1 = - 1"
    and "sysid (exampleData 2) = 7"
    by (simp_all add: exampleStart_eq exampleData_def)
  ultimately show ?thesis
    using loss_ratio_denominator_positive[where s = exampleVehicle and m = "exampleData 2"
        and link = exampleLink and uas = "Some (7::8 word)" and E = exampleE and time = 0
        and buf = "[]" and cs = "[]" and st = noSettings and p = "[]" and r = "[]"
        and d = "\<lambda>n. []" and z = exampleStart and c = "EnableLogging False"
        and lastLoss = 0]
      exampleVehicle_report(1)[of 0 "[]"]
    by simp
qed
end
